theory Spec2Isabelle
  imports Main "HOL-Library.Word" "HOL-Library.Sublist" "HOL-Library.AList"
    "HOL-Library.Char_ord" "HOL-Library.List_Lexorder"
begin

unbundle bit_operations_syntax

section \<open>LSB steganography (lsb\_steganography.py)\<close>

subsection \<open>Images\<close>

text \<open>
  A Pillow image is its size and its pixels in row-major order: the pixel at \<open>(x, y)\<close> is
  entry \<open>y * width + x\<close> of the list. An \<open>RGB\<close> image holds triples of bytes; a mode
  \<open>1\<close> image holds one of two values per pixel, which \<open>getpixel\<close> reports as 0 (black)
  and 255 (white).
\<close>

record 'p image =
  width :: nat
  height :: nat
  pixels :: "'p list"

type_synonym rgb = "8 word \<times> 8 word \<times> 8 word"

datatype px1 = Black | White

definition wf_image :: "'p image \<Rightarrow> bool" where
  "wf_image img = (length (pixels img) = width img * height img)"

definition getpixel :: "'p image \<Rightarrow> nat \<times> nat \<Rightarrow> 'p" where
  "getpixel img xy = pixels img ! (snd xy * width img + fst xy)"

definition putpixel :: "'p image \<Rightarrow> nat \<times> nat \<Rightarrow> 'p \<Rightarrow> 'p image" where
  "putpixel img xy v = img\<lparr>pixels := (pixels img)[snd xy * width img + fst xy := v]\<rparr>"

text \<open>The value \<open>getpixel\<close> returns for a mode \<open>1\<close> pixel.\<close>

fun px1_value :: "px1 \<Rightarrow> nat" where
  "px1_value Black = 0"
| "px1_value White = 255"

text \<open>
  The coordinates visited by \<open>for y in range(h): for x in range(w)\<close>, in that order.
\<close>

definition row_major :: "nat \<Rightarrow> nat \<Rightarrow> (nat \<times> nat) list" where
  "row_major w h = concat (map (\<lambda>y. map (\<lambda>x. (x, y)) [0..<w]) [0..<h])"

subsection \<open>Bit helpers\<close>

definition HEADER_TERMINATOR_BIN :: string where
  "HEADER_TERMINATOR_BIN = ''00000000''"

definition HEADER_TERMINATOR_LEN :: nat where
  "HEADER_TERMINATOR_LEN = length HEADER_TERMINATOR_BIN"

text \<open>The binary digits of a number, most significant first; \<open>0\<close> has the one digit 0.\<close>

fun bin_digits :: "nat \<Rightarrow> string" where
  "bin_digits n =
     (if n < 2 then [if n = 0 then CHR ''0'' else CHR ''1'']
      else bin_digits (n div 2) @ [if n mod 2 = 0 then CHR ''0'' else CHR ''1''])"

declare bin_digits.simps [simp del]

text \<open>
  \<open>format(integer, '0{bits}b')\<close>: the digits, padded with zeros on the left up to
  \<open>bits\<close> characters. A number that needs more digits is not truncated.
\<close>

definition int_to_binary :: "nat \<Rightarrow> nat \<Rightarrow> string" where
  "int_to_binary integer bits =
     replicate (bits - length (bin_digits integer)) (CHR ''0'') @ bin_digits integer"

text \<open>
  \<open>int(binary_string, 2)\<close> on a string of the characters 0 and 1, read most significant
  digit first. The extractor only ever passes strings built by \<open>extract_lsb\<close>.
\<close>

definition binary_to_int :: "string \<Rightarrow> nat" where
  "binary_to_int binary_string =
     foldl (\<lambda>acc c. 2 * acc + (if c = CHR ''1'' then 1 else 0)) 0 binary_string"

definition embed_bit :: "8 word \<Rightarrow> char \<Rightarrow> 8 word" where
  "embed_bit pixel_value b =
     (if b = CHR ''0'' then pixel_value AND 254 else pixel_value OR 1)"

definition extract_lsb :: "8 word \<Rightarrow> char" where
  "extract_lsb pixel_value = (if pixel_value mod 2 = 1 then CHR ''1'' else CHR ''0'')"

subsection \<open>Errors and files\<close>

text \<open>
  Every \<open>raise\<close> of the two entry points is one value: \<open>FileNotFoundError\<close> with the
  path, or \<open>ValueError\<close> with the message, one constructor per message.
\<close>

datatype value_error =
    OutputNotPNG
  | CapacityTooSmallForHeader
  | CapacityInsufficient nat nat
  | CapacityInsufficientAfterResize nat nat
  | HeaderLengthMismatch
  | TerminatorNotFound
  | HeaderNotFound
  | InsufficientData nat nat
  | CannotWriteEmptyImage

datatype error = FileNotFoundError string | ValueError value_error

text \<open>
  The image files on disk: a path holds an \<open>RGB\<close> image or a mode \<open>1\<close> image. PNG is
  lossless, so what \<open>save\<close> writes is what \<open>Image.open\<close> reads back.
\<close>

datatype image_file = RGBFile "rgb image" | BilevelFile "px1 image"

type_synonym fs = "string \<rightharpoonup> image_file"

text \<open>
  \<open>Image.open(path).convert('RGB')\<close>: an \<open>RGB\<close> image is kept; a mode \<open>1\<close> image
  becomes black \<open>(0,0,0)\<close> and white \<open>(255,255,255)\<close>.
\<close>

fun px1_to_rgb :: "px1 \<Rightarrow> rgb" where
  "px1_to_rgb Black = (0, 0, 0)"
| "px1_to_rgb White = (255, 255, 255)"

fun convert_RGB :: "image_file \<Rightarrow> rgb image" where
  "convert_RGB (RGBFile img) = img"
| "convert_RGB (BilevelFile img) =
     \<lparr>width = width img, height = height img, pixels = map px1_to_rgb (pixels img)\<rparr>"

text \<open>
  \<open>Image.open(path).convert('1')\<close>: a mode \<open>1\<close> image is kept. Pillow dithers an
  \<open>RGB\<close> image down to two levels; that conversion is Pillow's, so it is the parameter
  \<open>dither\<close>.
\<close>

fun convert_1 :: "(rgb image \<Rightarrow> px1 image) \<Rightarrow> image_file \<Rightarrow> px1 image" where
  "convert_1 dither (BilevelFile img) = img"
| "convert_1 dither (RGBFile img) = dither img"

text \<open>\<open>path.lower().endswith('.png')\<close>, on the ASCII letters.\<close>

definition lower_char :: "char \<Rightarrow> char" where
  "lower_char c =
     (if (65::nat) \<le> of_char c \<and> of_char c \<le> (90::nat) then char_of (of_char c + (32::nat)) else c)"

definition ends_with_png :: "string \<Rightarrow> bool" where
  "ends_with_png path = suffix ''.png'' (map lower_char path)"

text \<open>
  \<open>os.path.splitext(path)[0]\<close> (POSIX): the path up to the last dot of its last
  component, unless that component has only dots before it.
\<close>

definition rfind :: "char \<Rightarrow> string \<Rightarrow> int" where
  "rfind c s =
     (if c \<in> set s then int (length s - 1 - length (takeWhile (\<lambda>d. d \<noteq> c) (rev s))) else - 1)"

definition splitext_root :: "string \<Rightarrow> string" where
  "splitext_root p =
     (let sepIndex = rfind (CHR ''/'') p; dotIndex = rfind (CHR ''.'') p
      in if dotIndex > sepIndex
            \<and> list_ex (\<lambda>i. p ! i \<noteq> CHR ''.'') [nat (sepIndex + 1)..<nat dotIndex]
         then take (nat dotIndex) p else p)"

subsection \<open>The resize policy\<close>

text \<open>
  \<open>int(math.sqrt(n))\<close>. The double-precision square root of an integer below \<open>2^52\<close>
  truncates to the integer square root; the model is the integer square root, computed
  two bits at a time, and stands for the code below that bound only.
\<close>

fun floor_sqrt :: "nat \<Rightarrow> nat" where
  "floor_sqrt n =
     (if n = 0 then 0
      else let r = 2 * floor_sqrt (n div 4)
           in if (r + 1) * (r + 1) \<le> n then r + 1 else r)"

declare floor_sqrt.simps [simp del]

text \<open>
  \<open>qr_img.resize((new_size, new_size), Resampling.NEAREST)\<close> is Pillow's. Every pixel of
  its result copies one pixel of the source: the one that holds the centre
  \<open>(x + 1/2) * width / w\<close> of the output pixel. Pillow steps that coordinate in double
  precision, so a centre that falls exactly on the boundary between two source pixels
  may be read from either of them. \<open>nearest_source src dst x c\<close> says that the source
  coordinate \<open>c\<close> holds the centre of the output coordinate \<open>x\<close> when \<open>src\<close> samples are
  resized to \<open>dst\<close>; \<open>nearest_neighbour_of img sz out\<close> says that \<open>out\<close> is a
  nearest-neighbour resize of \<open>img\<close> to the size \<open>sz\<close>.
\<close>

definition nearest_source :: "nat \<Rightarrow> nat \<Rightarrow> nat \<Rightarrow> nat \<Rightarrow> bool" where
  "nearest_source src dst x c =
     (c < src \<and> 2 * dst * c \<le> (2 * x + 1) * src \<and> (2 * x + 1) * src \<le> 2 * dst * (c + 1))"

definition nearest_neighbour_of :: "'p image \<Rightarrow> nat \<times> nat \<Rightarrow> 'p image \<Rightarrow> bool" where
  "nearest_neighbour_of img sz out =
     (width out = fst sz \<and> height out = snd sz \<and> wf_image out \<and>
      (\<forall>x < fst sz. \<forall>y < snd sz.
         \<exists>cx cy. nearest_source (width img) (fst sz) x cx
                \<and> nearest_source (height img) (snd sz) y cy
                \<and> getpixel out (x, y) = getpixel img (cx, cy)))"

text \<open>
  The resize that reads, for every output pixel, the source pixel at the floor of the
  centre, in exact arithmetic. It is a nearest-neighbour resize, and Pillow's result
  whenever no centre falls on a boundary.
\<close>

definition resize_nearest :: "'p image \<Rightarrow> nat \<times> nat \<Rightarrow> 'p image" where
  "resize_nearest img sz =
     \<lparr>width = fst sz, height = snd sz,
      pixels = map (\<lambda>(x, y). getpixel img
                     (((2 * x + 1) * width img) div (2 * fst sz),
                      ((2 * y + 1) * height img) div (2 * snd sz)))
                 (row_major (fst sz) (snd sz))\<rparr>"

text \<open>
  \<open>_resize_qr_for_capacity\<close>, with the library call \<open>qr_img.resize(size, Resampling.NEAREST)\<close>
  as the parameter \<open>resize_NEAREST\<close>.
\<close>

definition resize_qr_for_capacity_by ::
  "(px1 image \<Rightarrow> nat \<times> nat \<Rightarrow> px1 image) \<Rightarrow> px1 image \<Rightarrow> nat \<Rightarrow> error + px1 image" where
  "resize_qr_for_capacity_by resize_NEAREST qr_img max_capacity =
     (let available_bits_for_qr = int max_capacity - int (16 + 16 + HEADER_TERMINATOR_LEN)
      in if available_bits_for_qr \<le> 0 then Inl (ValueError CapacityTooSmallForHeader)
         else let new_dimension = floor_sqrt (nat available_bits_for_qr)
              in if width qr_img \<le> new_dimension \<and> height qr_img \<le> new_dimension
                 then Inr qr_img
                 else let new_size = min new_dimension new_dimension
                      in Inr (resize_NEAREST qr_img (new_size, new_size)))"

definition resize_qr_for_capacity :: "px1 image \<Rightarrow> nat \<Rightarrow> error + px1 image" where
  "resize_qr_for_capacity qr_img max_capacity =
     resize_qr_for_capacity_by resize_nearest qr_img max_capacity"

subsection \<open>Embedding\<close>

text \<open>
  The embedding loop. It walks the cover's coordinates and takes one bit per pixel; the
  stego image is saved in the handler of \<open>StopIteration\<close>, that is, when a pixel is
  reached with no bit left. The flag returned tells whether that happened: when the
  coordinates run out first, the loop falls through to the warning below it and nothing
  is saved.
\<close>

fun embed_loop :: "(nat \<times> nat) list \<Rightarrow> string \<Rightarrow> rgb image \<Rightarrow> rgb image \<times> bool" where
  "embed_loop [] data_bits stego_img = (stego_img, False)"
| "embed_loop (xy # rest) [] stego_img = (stego_img, True)"
| "embed_loop (xy # rest) (bit_to_embed # data_bits) stego_img =
     (case getpixel stego_img xy of (r, g, b) \<Rightarrow>
        embed_loop rest data_bits (putpixel stego_img xy (r, g, embed_bit b bit_to_embed)))"

text \<open>Step 2 of the embedder: the payload is resized only when it does not fit.\<close>

definition fit_qr :: "px1 image \<Rightarrow> nat \<Rightarrow> bool \<Rightarrow> error + px1 image" where
  "fit_qr qr_img max_capacity resize_qr_if_needed =
     (let header_bits_len = 16 + 16 + HEADER_TERMINATOR_LEN;
          qr_bits_len = width qr_img * height qr_img;
          total_bits_needed = header_bits_len + qr_bits_len
      in if total_bits_needed > max_capacity then
           (if resize_qr_if_needed then resize_qr_for_capacity qr_img max_capacity
            else Inl (ValueError (CapacityInsufficient total_bits_needed max_capacity)))
         else Inr qr_img)"

definition qr_bits_of :: "px1 image \<Rightarrow> string" where
  "qr_bits_of qr_img =
     map (\<lambda>xy. if px1_value (getpixel qr_img xy) = 0 then CHR ''1'' else CHR ''0'')
       (row_major (width qr_img) (height qr_img))"

definition header_bits_of :: "px1 image \<Rightarrow> string" where
  "header_bits_of qr_img =
     int_to_binary (width qr_img) 16 @ int_to_binary (height qr_img) 16 @ HEADER_TERMINATOR_BIN"

text \<open>
  The body of the \<open>try\<close> block on the opened images: the stego image built in memory
  and whether it was saved.
\<close>

definition embed_images :: "rgb image \<Rightarrow> px1 image \<Rightarrow> bool \<Rightarrow> error + rgb image \<times> bool" where
  "embed_images cover_img qr_img0 resize_qr_if_needed =
     (let max_capacity = width cover_img * height cover_img
      in case fit_qr qr_img0 max_capacity resize_qr_if_needed of
           Inl e \<Rightarrow> Inl e
         | Inr qr_img \<Rightarrow>
             let qr_bits = qr_bits_of qr_img;
                 header_bits = header_bits_of qr_img;
                 total_bits_to_embed = length header_bits + length qr_bits
             in if total_bits_to_embed > max_capacity
                then Inl (ValueError (CapacityInsufficientAfterResize total_bits_to_embed max_capacity))
                else Inr (embed_loop (row_major (width cover_img) (height cover_img))
                            (header_bits @ qr_bits) cover_img))"

text \<open>
  The entry point, on the files: the result of the call (\<open>Inl\<close> for a raised error) and
  the files afterwards.
\<close>

definition embed_qr_to_image ::
  "(rgb image \<Rightarrow> px1 image) \<Rightarrow> fs \<Rightarrow> string \<Rightarrow> string \<Rightarrow> string \<Rightarrow> bool \<Rightarrow> (error + unit) \<times> fs" where
  "embed_qr_to_image dither files cover_image_path qr_image_path output_stego_path resize_qr_if_needed =
     (case files cover_image_path of
        None \<Rightarrow> (Inl (FileNotFoundError cover_image_path), files)
      | Some cover_file \<Rightarrow>
     (case files qr_image_path of
        None \<Rightarrow> (Inl (FileNotFoundError qr_image_path), files)
      | Some qr_file \<Rightarrow>
          if \<not> ends_with_png output_stego_path then (Inl (ValueError OutputNotPNG), files)
          else (case embed_images (convert_RGB cover_file) (convert_1 dither qr_file)
                       resize_qr_if_needed of
                  Inl e \<Rightarrow> (Inl e, files)
                | Inr (stego_img, saved) \<Rightarrow>
                    if saved then (Inr (), files(output_stego_path := Some (RGBFile stego_img)))
                    else (Inr (), files))))"

subsection \<open>Extraction\<close>

definition blue :: "rgb \<Rightarrow> 8 word" where
  "blue p = snd (snd p)"

text \<open>
  The header loop: the bits read so far and the pixels processed so far are carried
  along. On success it gives the two dimensions and the number of pixels processed.
\<close>

fun header_loop ::
  "(nat \<times> nat) list \<Rightarrow> rgb image \<Rightarrow> string \<Rightarrow> nat \<Rightarrow> error + nat \<times> nat \<times> nat" where
  "header_loop [] stego_img extracted_bits pixels_processed = Inl (ValueError HeaderNotFound)"
| "header_loop (xy # rest) stego_img extracted_bits0 pixels_processed0 =
     (let extracted_bits = extracted_bits0 @ [extract_lsb (blue (getpixel stego_img xy))];
          pixels_processed = pixels_processed0 + 1;
          num_header_bits = 16 + 16 + HEADER_TERMINATOR_LEN
      in if length extracted_bits \<ge> num_header_bits then
           (if suffix HEADER_TERMINATOR_BIN extracted_bits then
              (let header_data = take (length extracted_bits - HEADER_TERMINATOR_LEN) extracted_bits
               in if length header_data = 32
                  then Inr (binary_to_int (take 16 header_data),
                            binary_to_int (drop 16 header_data), pixels_processed)
                  else Inl (ValueError HeaderLengthMismatch))
            else if length extracted_bits > num_header_bits + 500
                 then Inl (ValueError TerminatorNotFound)
                 else header_loop rest stego_img extracted_bits pixels_processed)
         else header_loop rest stego_img extracted_bits pixels_processed)"

text \<open>
  The pixels of the payload: the generator over the rows from \<open>start_y\<close> on, filtered
  to the positions at or after \<open>(start_x, start_y)\<close>, cut by \<open>islice\<close> to the expected
  number.
\<close>

definition pixel_iterator :: "nat \<Rightarrow> nat \<Rightarrow> nat \<Rightarrow> nat \<Rightarrow> (nat \<times> nat) list" where
  "pixel_iterator w h start_pixel_index num_qr_bits_expected =
     (let start_y = start_pixel_index div w;
          start_x = start_pixel_index mod w
      in take num_qr_bits_expected
           (filter (\<lambda>(x, y). y > start_y \<or> (y = start_y \<and> x \<ge> start_x))
              (concat (map (\<lambda>y. map (\<lambda>x. (x, y)) [0..<w]) [start_y..<h]))))"

text \<open>\<open>Image.new('1', (w, h))\<close>: all pixels 0.\<close>

definition Image_new :: "nat \<Rightarrow> nat \<Rightarrow> px1 image" where
  "Image_new w h = \<lparr>width = w, height = h, pixels = replicate (w * h) Black\<rparr>"

fun reconstruct_loop :: "(nat \<times> nat) list \<Rightarrow> string \<Rightarrow> nat \<Rightarrow> px1 image \<Rightarrow> px1 image" where
  "reconstruct_loop [] qr_bits bit_index reconstructed_qr = reconstructed_qr"
| "reconstruct_loop (xy # rest) qr_bits bit_index reconstructed_qr =
     reconstruct_loop rest qr_bits (bit_index + 1)
       (putpixel reconstructed_qr xy (if qr_bits ! bit_index = CHR ''1'' then Black else White))"

text \<open>
  The body of the extractor's \<open>try\<close> block on the opened stego image, up to the
  reconstructed image. \<open>reconstructed_qr.save\<close> follows in \<open>extract_qr_from_image\<close>:
  Pillow refuses to write an image with an empty side, with a \<open>ValueError\<close> that the
  handler re-raises, and no file is written.
\<close>

definition extract_image :: "rgb image \<Rightarrow> error + px1 image" where
  "extract_image stego_img =
     (let w = width stego_img; h = height stego_img
      in case header_loop (row_major w h) stego_img [] 0 of
           Inl e \<Rightarrow> Inl e
         | Inr (qr_width, qr_height, pixels_processed) \<Rightarrow>
             let num_qr_bits_expected = qr_width * qr_height;
                 qr_bits = map (\<lambda>xy. extract_lsb (blue (getpixel stego_img xy)))
                             (pixel_iterator w h pixels_processed num_qr_bits_expected);
                 bits_extracted_count = length qr_bits
             in if bits_extracted_count < num_qr_bits_expected
                then Inl (ValueError (InsufficientData bits_extracted_count num_qr_bits_expected))
                else Inr (reconstruct_loop (row_major qr_width qr_height) qr_bits 0
                            (Image_new qr_width qr_height)))"

definition extract_qr_from_image :: "fs \<Rightarrow> string \<Rightarrow> string \<Rightarrow> (error + unit) \<times> fs" where
  "extract_qr_from_image files stego_image_path output_qr_path0 =
     (case files stego_image_path of
        None \<Rightarrow> (Inl (FileNotFoundError stego_image_path), files)
      | Some stego_file \<Rightarrow>
          let output_qr_path =
                (if \<not> ends_with_png output_qr_path0 then splitext_root output_qr_path0 @ ''.png''
                 else output_qr_path0)
          in case extract_image (convert_RGB stego_file) of
               Inl e \<Rightarrow> (Inl e, files)
             | Inr reconstructed_qr \<Rightarrow>
                 if width reconstructed_qr = 0 \<or> height reconstructed_qr = 0
                 then (Inl (ValueError CannotWriteEmptyImage), files)
                 else (Inr (), files(output_qr_path := Some (BilevelFile reconstructed_qr))))"

section \<open>Document binding (document\_security.py, secure\_qr\_utils.py)\<close>

subsection \<open>JSON values and the libraries\<close>

text \<open>
  What \<open>json.loads\<close> returns and \<open>json.dumps\<close> takes: \<open>None\<close>, booleans, integers,
  strings, lists, and dictionaries in insertion order. Text is ASCII, so a \<open>str\<close> and its
  \<open>bytes\<close> are the same list of characters and \<open>encode\<close>/\<open>decode\<close> change nothing.
\<close>

datatype json =
    JNull
  | JBool bool
  | JInt int
  | JStr string
  | JArr "json list"
  | JObj "(string \<times> json) list"

type_synonym dict = "(string \<times> json) list"

text \<open>The three ways the code calls \<open>json.dumps\<close>: plain, \<open>sort_keys=True\<close>, \<open>separators=(',', ':')\<close>.\<close>

datatype dump_style = Default | SortKeys | Compact

text \<open>
  The library functions the module calls. They are not part of the repository, so the
  model takes them as a parameter: \<open>json_loads\<close> gives \<open>None\<close> where \<open>json.loads\<close> raises
  \<open>JSONDecodeError\<close>, \<open>b64decode\<close> gives \<open>None\<close> where \<open>base64.b64decode\<close> raises
  \<open>binascii.Error\<close>; \<open>hmac_sha256 key msg\<close> is \<open>hmac.new(key, msg, sha256).digest()\<close>,
  \<open>sha256_hexdigest\<close> is \<open>hashlib.sha256(data).hexdigest()\<close>; \<open>docx_metadata\<close> and
  \<open>pdf_metadata\<close> are what python-docx and PyMuPDF read from the file, or the message of
  the exception they raise.
\<close>

record libs =
  json_dumps :: "dump_style \<Rightarrow> json \<Rightarrow> string"
  json_loads :: "string \<Rightarrow> json option"
  b64encode :: "string \<Rightarrow> string"
  b64decode :: "string \<Rightarrow> string option"
  hmac_sha256 :: "string \<Rightarrow> string \<Rightarrow> string"
  sha256_hexdigest :: "string \<Rightarrow> string"
  docx_metadata :: "string \<Rightarrow> string + dict"
  pdf_metadata :: "string \<Rightarrow> string + dict"

text \<open>The exceptions that can reach a handler of the module.\<close>

datatype exn =
    JSONDecodeError
  | BinasciiError
  | KeyError string
  | TypeError
  | AttributeError

datatype security_error =
    DocumentNotFound string
  | DocumentTooLarge nat
  | FailedToFingerprint exn
  | FailedToGenerateToken exn
  | FailedToParseQR exn
  | BindingDataTooLarge

definition bind_exn :: "'e + 'a \<Rightarrow> ('a \<Rightarrow> 'e + 'b) \<Rightarrow> 'e + 'b" where
  "bind_exn m f = (case m of Inl e \<Rightarrow> Inl e | Inr x \<Rightarrow> f x)"

text \<open>\<open>d[key]\<close> and \<open>d.get(key, default)\<close> on a dictionary.\<close>

definition subscript :: "dict \<Rightarrow> string \<Rightarrow> exn + json" where
  "subscript d k = (case map_of d k of None \<Rightarrow> Inl (KeyError k) | Some v \<Rightarrow> Inr v)"

definition dict_get :: "dict \<Rightarrow> string \<Rightarrow> json \<Rightarrow> json" where
  "dict_get d k dflt = (case map_of d k of None \<Rightarrow> dflt | Some v \<Rightarrow> v)"

text \<open>
  The same operations on a value that came out of \<open>json.loads\<close> and may be anything:
  \<open>key in v\<close>, \<open>v[key]\<close>, \<open>v.get(key, default)\<close>, \<open>v.encode('ascii')\<close> and
  \<open>current_time > v\<close>.
\<close>

fun py_contains :: "json \<Rightarrow> string \<Rightarrow> exn + bool" where
  "py_contains (JObj d) k = Inr (map_of d k \<noteq> None)"
| "py_contains (JArr xs) k = Inr (JStr k \<in> set xs)"
| "py_contains (JStr s) k = Inr (sublist k s)"
| "py_contains v k = Inl TypeError"

fun py_subscript :: "json \<Rightarrow> string \<Rightarrow> exn + json" where
  "py_subscript (JObj d) k = subscript d k"
| "py_subscript v k = Inl TypeError"

fun py_get :: "json \<Rightarrow> string \<Rightarrow> json \<Rightarrow> exn + json" where
  "py_get (JObj d) k dflt = Inr (dict_get d k dflt)"
| "py_get v k dflt = Inl AttributeError"

fun py_encode_ascii :: "json \<Rightarrow> exn + string" where
  "py_encode_ascii (JStr s) = Inr s"
| "py_encode_ascii v = Inl AttributeError"

fun py_int_gt :: "int \<Rightarrow> json \<Rightarrow> exn + bool" where
  "py_int_gt n (JInt m) = Inr (n > m)"
| "py_int_gt n (JBool b) = Inr (n > (if b then 1 else 0))"
| "py_int_gt n v = Inl TypeError"

definition QR_BINDING_VERSION :: string where
  "QR_BINDING_VERSION = ''2.0''"

definition MAX_DOCUMENT_SIZE :: nat where
  "MAX_DOCUMENT_SIZE = 50 * 1024 * 1024"

subsection \<open>Fingerprints\<close>

text \<open>A document on disk: its bytes and \<open>int(stat.st_mtime)\<close>.\<close>

record document =
  content :: string
  st_mtime :: int

text \<open>\<open>os.path.basename\<close> and \<open>os.path.splitext(...)[1]\<close> (POSIX).\<close>

definition basename :: "string \<Rightarrow> string" where
  "basename p = drop (nat (rfind (CHR ''/'') p + 1)) p"

definition splitext_ext :: "string \<Rightarrow> string" where
  "splitext_ext p = drop (length (splitext_root p)) p"

text \<open>\<open>metadata.update(more)\<close>: a key already there keeps its place and takes the new value.\<close>

definition dict_update :: "dict \<Rightarrow> dict \<Rightarrow> dict" where
  "dict_update d extra = foldl (\<lambda>acc kv. AList.update (fst kv) (snd kv) acc) d extra"

definition extract_docx_metadata :: "libs \<Rightarrow> string \<Rightarrow> dict" where
  "extract_docx_metadata L doc_bytes =
     (case docx_metadata L doc_bytes of
        Inr props \<Rightarrow> props
      | Inl e \<Rightarrow> [(''extraction_method'', JStr ''docx''), (''error'', JStr e)])"

definition extract_pdf_metadata :: "libs \<Rightarrow> string \<Rightarrow> dict" where
  "extract_pdf_metadata L doc_bytes =
     (case pdf_metadata L doc_bytes of
        Inr props \<Rightarrow> props
      | Inl e \<Rightarrow> [(''extraction_method'', JStr ''pdf''), (''error'', JStr e)])"

definition extract_document_metadata :: "libs \<Rightarrow> string \<Rightarrow> string \<Rightarrow> dict" where
  "extract_document_metadata L doc_bytes file_ext =
     (let metadata = [(''type'', JStr file_ext)]
      in if file_ext = ''.docx'' then dict_update metadata (extract_docx_metadata L doc_bytes)
         else if file_ext = ''.pdf'' then dict_update metadata (extract_pdf_metadata L doc_bytes)
         else dict_update metadata [(''extraction_method'', JStr ''basic'')])"

text \<open>
  \<open>generate_document_fingerprint\<close>. The two things the call draws from outside, the
  fresh \<open>uuid.uuid4()\<close> and the clock, are arguments.
\<close>

definition generate_document_fingerprint ::
  "libs \<Rightarrow> (string \<rightharpoonup> document) \<Rightarrow> string \<Rightarrow> string \<Rightarrow> int \<Rightarrow> security_error + dict" where
  "generate_document_fingerprint L docs document_path uuid4 time_now =
     (case docs document_path of
        None \<Rightarrow> Inl (DocumentNotFound document_path)
      | Some doc \<Rightarrow>
          let file_size = length (content doc)
          in if file_size > MAX_DOCUMENT_SIZE then Inl (DocumentTooLarge file_size)
             else
               let filename = basename document_path;
                   file_ext = map lower_char (splitext_ext filename);
                   file_hash = sha256_hexdigest L (content doc);
                   doc_metadata = extract_document_metadata L (content doc) file_ext;
                   document_id = uuid4;
                   fingerprint =
                     [(''version'', JStr QR_BINDING_VERSION),
                      (''document_id'', JStr document_id),
                      (''timestamp'', JInt time_now),
                      (''file_info'', JObj
                         [(''name'', JStr filename),
                          (''size'', JInt (int file_size)),
                          (''extension'', JStr file_ext),
                          (''modified_time'', JInt (st_mtime doc))]),
                      (''content_hash'', JStr file_hash),
                      (''document_metadata'', JObj doc_metadata),
                      (''security_level'', JStr ''standard'')];
                   fingerprint_data = json_dumps L SortKeys (JObj fingerprint);
                   fingerprint_hash = sha256_hexdigest L fingerprint_data
               in Inr (fingerprint @ [(''fingerprint_hash'', JStr fingerprint_hash)]))"

subsection \<open>Binding tokens\<close>

text \<open>
  \<open>generate_binding_token\<close>. The payload reads the clock twice, once for \<open>issued_at\<close>
  and once for \<open>expires_at\<close>; the two readings are the last two arguments.
\<close>

definition generate_binding_token ::
  "libs \<Rightarrow> string \<Rightarrow> dict \<Rightarrow> string \<Rightarrow> int \<Rightarrow> int \<Rightarrow> int \<Rightarrow> security_error + string" where
  "generate_binding_token L secret_key document_fingerprint qr_data expiry_hours time_1 time_2 =
     (case subscript document_fingerprint ''document_id'' of
        Inl e \<Rightarrow> Inl (FailedToGenerateToken e)
      | Inr document_id \<Rightarrow>
     (case subscript document_fingerprint ''fingerprint_hash'' of
        Inl e \<Rightarrow> Inl (FailedToGenerateToken e)
      | Inr fingerprint_hash \<Rightarrow>
          let binding_payload =
                [(''document_id'', document_id),
                 (''fingerprint_hash'', fingerprint_hash),
                 (''qr_data'', JStr qr_data),
                 (''issued_at'', JInt time_1),
                 (''expires_at'', JInt (time_2 + expiry_hours * 3600)),
                 (''version'', JStr QR_BINDING_VERSION)];
              payload_bytes = json_dumps L SortKeys (JObj binding_payload);
              hmac_digest = hmac_sha256 L secret_key payload_bytes;
              token_data =
                [(''payload'', JStr (b64encode L payload_bytes)),
                 (''signature'', JStr (b64encode L hmac_digest)),
                 (''version'', JStr QR_BINDING_VERSION)];
              token_json = json_dumps L Default (JObj token_data)
          in Inr (b64encode L token_json)))"

text \<open>The dictionary \<open>verify_binding_token\<close> returns, by its \<open>error\<close> message.\<close>

datatype invalid_reason =
    MissingTokenField string
  | InvalidTokenSignature
  | TokenExpired
  | FingerprintMismatch json json
  | InvalidTokenFormat
  | VerificationFailed exn

record verification =
  qr_data :: json
  issued_at :: json
  expires_at :: json
  document_id :: json
  document_uuid :: json
  verification_time :: int

datatype verify_result = Valid verification | Invalid invalid_reason

definition b64decode_or_raise :: "libs \<Rightarrow> string \<Rightarrow> exn + string" where
  "b64decode_or_raise L s = (case b64decode L s of None \<Rightarrow> Inl BinasciiError | Some b \<Rightarrow> Inr b)"

definition json_loads_or_raise :: "libs \<Rightarrow> string \<Rightarrow> exn + json" where
  "json_loads_or_raise L s = (case json_loads L s of None \<Rightarrow> Inl JSONDecodeError | Some v \<Rightarrow> Inr v)"

text \<open>The loop over \<open>required_fields\<close>: the first field that is missing, if any.\<close>

fun first_missing :: "json \<Rightarrow> string list \<Rightarrow> exn + string option" where
  "first_missing token_data [] = Inr None"
| "first_missing token_data (field # others) =
     bind_exn (py_contains token_data field)
       (\<lambda>present. if \<not> present then Inr (Some field) else first_missing token_data others)"

text \<open>\<open>hmac.compare_digest\<close>: equality of the two byte strings.\<close>

definition compare_digest :: "string \<Rightarrow> string \<Rightarrow> bool" where
  "compare_digest a b = (a = b)"

text \<open>
  The body of the \<open>try\<close> block of \<open>verify_binding_token\<close>, in three parts; \<open>Inl\<close>
  is an exception on its way to the handlers. First the part after the signature has
  been accepted: the payload is parsed, then expiry, then the fingerprint, then the
  result is built and the \<open>logger.info\<close> line subscripts the fingerprint.
\<close>

definition verify_payload :: "libs \<Rightarrow> string \<Rightarrow> dict \<Rightarrow> int \<Rightarrow> exn + verify_result" where
  "verify_payload L payload_bytes document_fingerprint current_time =
     bind_exn (json_loads_or_raise L payload_bytes) (\<lambda>payload.
     bind_exn (py_get payload ''expires_at'' (JInt 0)) (\<lambda>expires.
     bind_exn (py_int_gt current_time expires) (\<lambda>expired.
       if expired then Inr (Invalid TokenExpired)
       else
         bind_exn (py_get payload ''fingerprint_hash'' JNull) (\<lambda>token_hash.
           if token_hash \<noteq> dict_get document_fingerprint ''fingerprint_hash'' JNull
           then Inr (Invalid (FingerprintMismatch token_hash
                       (dict_get document_fingerprint ''fingerprint_hash'' JNull)))
           else
             bind_exn (py_get payload ''qr_data'' JNull) (\<lambda>qr.
             bind_exn (py_get payload ''issued_at'' JNull) (\<lambda>issued.
             bind_exn (py_get payload ''expires_at'' JNull) (\<lambda>expires_at_field.
             bind_exn (py_get payload ''document_id'' JNull) (\<lambda>uuid_field.
             bind_exn (subscript document_fingerprint ''document_id'') (\<lambda>logged.
               Inr (Valid \<lparr>qr_data = qr, issued_at = issued, expires_at = expires_at_field,
                      document_id = dict_get document_fingerprint ''document_id'' JNull,
                      document_uuid = uuid_field,
                      verification_time = current_time\<rparr>))))))))))"

text \<open>
  The part on the decoded token: the required fields, the two base64 fields, and the
  signature check, which comes before anything of the payload is looked at.
\<close>

definition verify_token_data ::
  "libs \<Rightarrow> string \<Rightarrow> json \<Rightarrow> dict \<Rightarrow> int \<Rightarrow> exn + verify_result" where
  "verify_token_data L secret_key token_data document_fingerprint time_now =
     bind_exn (first_missing token_data [''payload'', ''signature'', ''version'']) (\<lambda>missing.
       case missing of
         Some field \<Rightarrow> Inr (Invalid (MissingTokenField field))
       | None \<Rightarrow>
           bind_exn (py_subscript token_data ''payload'') (\<lambda>payload_field.
           bind_exn (py_encode_ascii payload_field) (\<lambda>payload_b64.
           bind_exn (b64decode_or_raise L payload_b64) (\<lambda>payload_bytes.
           bind_exn (py_subscript token_data ''signature'') (\<lambda>signature_field.
           bind_exn (py_encode_ascii signature_field) (\<lambda>signature_b64.
           bind_exn (b64decode_or_raise L signature_b64) (\<lambda>signature_bytes.
             let expected_signature = hmac_sha256 L secret_key payload_bytes
             in if \<not> compare_digest signature_bytes expected_signature
                then Inr (Invalid InvalidTokenSignature)
                else verify_payload L payload_bytes document_fingerprint time_now)))))))"

definition verify_try :: "libs \<Rightarrow> string \<Rightarrow> string \<Rightarrow> dict \<Rightarrow> int \<Rightarrow> exn + verify_result" where
  "verify_try L secret_key token document_fingerprint time_now =
     bind_exn (b64decode_or_raise L token) (\<lambda>token_json.
     bind_exn (json_loads_or_raise L token_json) (\<lambda>token_data.
       verify_token_data L secret_key token_data document_fingerprint time_now))"

text \<open>
  \<open>verify_binding_token\<close> with its two handlers. The result type has room for an
  exception that leaves the function (\<open>Inl\<close>).
\<close>

definition verify_binding_token ::
  "libs \<Rightarrow> string \<Rightarrow> string \<Rightarrow> dict \<Rightarrow> int \<Rightarrow> exn + verify_result" where
  "verify_binding_token L secret_key token document_fingerprint time_now =
     (case verify_try L secret_key token document_fingerprint time_now of
        Inr result \<Rightarrow> Inr result
      | Inl JSONDecodeError \<Rightarrow> Inr (Invalid InvalidTokenFormat)
      | Inl e \<Rightarrow> Inr (Invalid (VerificationFailed e)))"

subsection \<open>The envelope\<close>

definition create_secure_qr_data :: "libs \<Rightarrow> string \<Rightarrow> string \<Rightarrow> int \<Rightarrow> string" where
  "create_secure_qr_data L original_data binding_token time_now =
     json_dumps L Compact (JObj
       [(''version'', JStr QR_BINDING_VERSION),
        (''type'', JStr ''secure''),
        (''data'', JStr original_data),
        (''binding'', JStr binding_token),
        (''created_at'', JInt time_now)])"

record qr_info =
  is_secure :: bool
  original_data :: json
  binding_token :: json
  version :: json
  created_at :: json
  is_uuid_based :: bool

text \<open>
  \<open>parse_secure_qr_data\<close>: \<open>JSONDecodeError\<close> is passed over by the inner handler; the
  outer handler would turn any other exception into \<open>DocumentSecurityError\<close>.
\<close>

definition parse_secure_qr_data :: "libs \<Rightarrow> string \<Rightarrow> security_error + qr_info" where
  "parse_secure_qr_data L qr_text =
     (let legacy = \<lparr>is_secure = False, original_data = JStr qr_text, binding_token = JNull,
                     version = JNull, created_at = JNull, is_uuid_based = False\<rparr>
      in case json_loads L qr_text of
           None \<Rightarrow> Inr legacy
         | Some (JObj d) \<Rightarrow>
             if dict_get d ''type'' JNull = JStr ''secure''
             then let v = dict_get d ''version'' (JStr ''1.0'')
                  in Inr \<lparr>is_secure = True, original_data = dict_get d ''data'' JNull,
                          binding_token = dict_get d ''binding'' JNull, version = v,
                          created_at = dict_get d ''created_at'' JNull,
                          is_uuid_based = (v = JStr ''2.0'')\<rparr>
             else Inr legacy
         | Some other \<Rightarrow> Inr legacy)"

text \<open>
  The compact fallback of \<open>generate_bound_qr\<close>, and its choice between the two forms.
  \<open>capacity_ok s\<close> stands for
  \<open>analyze_qr_requirements(s).get('recommended_version')\<close> being truthy.
\<close>

definition compact_secure_data :: "libs \<Rightarrow> string \<Rightarrow> string \<Rightarrow> string" where
  "compact_secure_data L data token =
     json_dumps L Compact (JObj
       [(''v'', JStr ''1.0''),
        (''t'', JStr ''s''),
        (''d'', JStr data),
        (''b'', JStr (take 100 token))])"

definition choose_secure_qr_data ::
  "libs \<Rightarrow> (string \<Rightarrow> bool) \<Rightarrow> string \<Rightarrow> string \<Rightarrow> int \<Rightarrow> security_error + string" where
  "choose_secure_qr_data L capacity_ok data token time_now =
     (let secure_qr_data = create_secure_qr_data L data token time_now
      in if \<not> capacity_ok secure_qr_data then
           (if capacity_ok (compact_secure_data L data token)
            then Inr (compact_secure_data L data token)
            else Inl BindingDataTooLarge)
         else Inr secure_qr_data)"

text \<open>
  \<open>quick_binding_verification\<close>: a payload that is not secure is answered as legacy
  before any fingerprint or token is looked at; every exception becomes the error answer.
\<close>

datatype binding_answer =
    LegacyFormat
  | Verified verify_result json
  | BindingError

definition quick_binding_verification ::
  "libs \<Rightarrow> string \<Rightarrow> (string \<rightharpoonup> document) \<Rightarrow> string \<Rightarrow> string \<Rightarrow> string \<Rightarrow> int \<Rightarrow> int
    \<Rightarrow> binding_answer" where
  "quick_binding_verification L secret_key docs qr_text document_path uuid4 time_1 time_2 =
     (case parse_secure_qr_data L qr_text of
        Inl e \<Rightarrow> BindingError
      | Inr info \<Rightarrow>
          if \<not> is_secure info then LegacyFormat
          else (case generate_document_fingerprint L docs document_path uuid4 time_1 of
                  Inl e \<Rightarrow> BindingError
                | Inr fingerprint \<Rightarrow>
                    (case py_encode_ascii (binding_token info) of
                       Inl e \<Rightarrow>
                         Verified (Invalid (VerificationFailed e))
                           (dict_get fingerprint ''document_id'' JNull)
                     | Inr token \<Rightarrow>
                         (case verify_binding_token L secret_key token fingerprint time_2 of
                            Inl e \<Rightarrow> BindingError
                          | Inr verification \<Rightarrow>
                              Verified verification (dict_get fingerprint ''document_id'' JNull)))))"

subsection \<open>Reference libraries for the examples\<close>

text \<open>
  The theorems below hold for any libraries. The examples need concrete ones: base64
  with padding, and JSON written the way \<open>json.dumps\<close> writes it (\<open>ensure_ascii\<close>,
  separators \<open>", "\<close> and \<open>": "\<close>, or \<open>","\<close> and \<open>":"\<close> in compact form) and read back by a
  recursive-descent parser for the values of type \<open>json\<close>. The decoder is strict: it
  refuses what is not padded base64 text.
\<close>

definition b64_alphabet :: string where
  "b64_alphabet = ''ABCDEFGHIJKLMNOPQRSTUVWXYZabcdefghijklmnopqrstuvwxyz0123456789+/''"

definition b64_char :: "nat \<Rightarrow> char" where
  "b64_char n = b64_alphabet ! n"

fun ref_b64encode :: "string \<Rightarrow> string" where
  "ref_b64encode [] = []"
| "ref_b64encode [a] =
     (let n = (of_char a :: nat) * 16
      in [b64_char (n div 64), b64_char (n mod 64), CHR ''='', CHR ''=''])"
| "ref_b64encode [a, b] =
     (let n = ((of_char a :: nat) * 256 + of_char b) * 4
      in [b64_char (n div 4096), b64_char (n div 64 mod 64), b64_char (n mod 64), CHR ''=''])"
| "ref_b64encode (a # b # c # rest) =
     (let n = ((of_char a :: nat) * 256 + of_char b) * 256 + of_char c
      in [b64_char (n div 262144), b64_char (n div 4096 mod 64),
          b64_char (n div 64 mod 64), b64_char (n mod 64)]) @ ref_b64encode rest"

definition b64_index :: "char \<Rightarrow> nat" where
  "b64_index c = length (takeWhile (\<lambda>d. d \<noteq> c) b64_alphabet)"

fun b64_groups :: "nat list \<Rightarrow> string" where
  "b64_groups (a # b # c # d # rest) =
     (let n = ((a * 64 + b) * 64 + c) * 64 + d
      in [char_of (n div 65536), char_of (n div 256 mod 256), char_of (n mod 256)])
     @ b64_groups rest"
| "b64_groups [a, b, c] =
     (let n = (a * 64 + b) * 64 + c in [char_of (n div 1024), char_of (n div 4 mod 256)])"
| "b64_groups [a, b] = [char_of ((a * 64 + b) div 16)]"
| "b64_groups other = []"

definition ref_b64decode :: "string \<Rightarrow> string option" where
  "ref_b64decode s =
     (let body = takeWhile (\<lambda>c. c \<noteq> CHR ''='') s;
          padding = drop (length body) s
      in if list_all (\<lambda>c. b64_index c < 64) body \<and> list_all (\<lambda>c. c = CHR ''='') padding
            \<and> length padding \<le> 2 \<and> length s mod 4 = 0
         then Some (b64_groups (map b64_index body)) else None)"

fun dec_digits :: "nat \<Rightarrow> string" where
  "dec_digits n =
     (if n < 10 then [char_of (48 + n)]
      else dec_digits (n div 10) @ [char_of (48 + n mod 10)])"

declare dec_digits.simps [simp del]

definition show_int :: "int \<Rightarrow> string" where
  "show_int i = (if i < 0 then CHR ''-'' # dec_digits (nat (- i)) else dec_digits (nat i))"

definition hex_digit :: "nat \<Rightarrow> char" where
  "hex_digit n = ''0123456789abcdef'' ! n"

definition escape_char :: "char \<Rightarrow> string" where
  "escape_char c =
     (if c = CHR ''\"'' then [CHR 0x5C, CHR ''\"'']
      else if c = CHR 0x5C then [CHR 0x5C, CHR 0x5C]
      else if c = CHR 0x0A then [CHR 0x5C, CHR ''n'']
      else if c = CHR 0x0D then [CHR 0x5C, CHR ''r'']
      else if c = CHR 0x09 then [CHR 0x5C, CHR ''t'']
      else if (of_char c :: nat) < 32 \<or> (of_char c :: nat) > 126
      then [CHR 0x5C, CHR ''u'', CHR ''0'', CHR ''0'',
            hex_digit (of_char c div 16), hex_digit (of_char c mod 16)]
      else [c])"

definition quote :: "string \<Rightarrow> string" where
  "quote s = CHR ''\"'' # concat (map escape_char s) @ [CHR ''\"'']"

fun intercalate :: "string \<Rightarrow> string list \<Rightarrow> string" where
  "intercalate sep [] = []"
| "intercalate sep [x] = x"
| "intercalate sep (x # y # rest) = x @ sep @ intercalate sep (y # rest)"

definition item_separator :: "dump_style \<Rightarrow> string" where
  "item_separator style = (if style = Compact then '','' else '', '')"

definition key_separator :: "dump_style \<Rightarrow> string" where
  "key_separator style = (if style = Compact then '':'' else '': '')"

fun ref_json_dumps :: "dump_style \<Rightarrow> json \<Rightarrow> string" where
  "ref_json_dumps style JNull = ''null''"
| "ref_json_dumps style (JBool b) = (if b then ''true'' else ''false'')"
| "ref_json_dumps style (JInt i) = show_int i"
| "ref_json_dumps style (JStr s) = quote s"
| "ref_json_dumps style (JArr xs) =
     ''['' @ intercalate (item_separator style) (map (ref_json_dumps style) xs) @ '']''"
| "ref_json_dumps style (JObj d) =
     (let items = map (\<lambda>kv. (fst kv, ref_json_dumps style (snd kv))) d
      in ''{'' @ intercalate (item_separator style)
                 (map (\<lambda>kt. quote (fst kt) @ key_separator style @ snd kt)
                    (if style = SortKeys then sort_key fst items else items)) @ ''}'')"

definition is_ws :: "char \<Rightarrow> bool" where
  "is_ws c = (c = CHR '' '' \<or> c = CHR 0x0A \<or> c = CHR 0x0D \<or> c = CHR 0x09)"

definition hex_value :: "char \<Rightarrow> nat" where
  "hex_value c = length (takeWhile (\<lambda>d. d \<noteq> c) ''0123456789abcdef'')"

fun parse_string_chars :: "string \<Rightarrow> string \<Rightarrow> (string \<times> string) option" where
  "parse_string_chars [] acc = None"
| "parse_string_chars (c # rest) acc =
     (if c = CHR ''\"'' then Some (acc, rest)
      else if c = CHR 0x5C then
        (case rest of
           [] \<Rightarrow> None
         | e # rest' \<Rightarrow>
             if e = CHR ''\"'' \<or> e = CHR 0x5C \<or> e = CHR ''/'' then parse_string_chars rest' (acc @ [e])
             else if e = CHR ''n'' then parse_string_chars rest' (acc @ [CHR 0x0A])
             else if e = CHR ''r'' then parse_string_chars rest' (acc @ [CHR 0x0D])
             else if e = CHR ''t'' then parse_string_chars rest' (acc @ [CHR 0x09])
             else if e = CHR ''u'' \<and> length rest' \<ge> 4 \<and> take 2 rest' = ''00''
                     \<and> hex_value (rest' ! 2) < 16 \<and> hex_value (rest' ! 3) < 16
             then parse_string_chars (drop 4 rest')
                    (acc @ [char_of (hex_value (rest' ! 2) * 16 + hex_value (rest' ! 3))])
             else None)
      else if (of_char c :: nat) < 32 then None
      else parse_string_chars rest (acc @ [c]))"

definition is_digit :: "char \<Rightarrow> bool" where
  "is_digit c = ((48 :: nat) \<le> of_char c \<and> of_char c \<le> (57 :: nat))"

definition digits_value :: "string \<Rightarrow> int" where
  "digits_value ds = foldl (\<lambda>acc c. 10 * acc + (int (of_char c) - 48)) 0 ds"

definition parse_number :: "string \<Rightarrow> (json \<times> string) option" where
  "parse_number s =
     (let negative = (s \<noteq> [] \<and> hd s = CHR ''-'');
          t = (if negative then tl s else s);
          ds = takeWhile is_digit t;
          rest = drop (length ds) t
      in if ds = [] \<or> (length ds > 1 \<and> hd ds = CHR ''0'')
            \<or> (rest \<noteq> [] \<and> (hd rest = CHR ''.'' \<or> hd rest = CHR ''e'' \<or> hd rest = CHR ''E''))
         then None
         else Some (JInt (if negative then - digits_value ds else digits_value ds), rest))"

fun parse_value :: "nat \<Rightarrow> string \<Rightarrow> (json \<times> string) option"
  and parse_array_items :: "nat \<Rightarrow> string \<Rightarrow> json list \<Rightarrow> (json \<times> string) option"
  and parse_object_items :: "nat \<Rightarrow> string \<Rightarrow> dict \<Rightarrow> (json \<times> string) option" where
  "parse_value 0 s = None"
| "parse_value (Suc n) s =
     (case dropWhile is_ws s of
        [] \<Rightarrow> None
      | c # rest \<Rightarrow>
          if c = CHR ''{'' then
            (case dropWhile is_ws rest of
               [] \<Rightarrow> None
             | d # rest' \<Rightarrow> if d = CHR ''}'' then Some (JObj [], rest')
                             else parse_object_items n rest [])
          else if c = CHR ''['' then
            (case dropWhile is_ws rest of
               [] \<Rightarrow> None
             | d # rest' \<Rightarrow> if d = CHR '']'' then Some (JArr [], rest')
                             else parse_array_items n rest [])
          else if c = CHR ''\"'' then
            (case parse_string_chars rest [] of
               None \<Rightarrow> None
             | Some (str, rest') \<Rightarrow> Some (JStr str, rest'))
          else if take 4 (c # rest) = ''null'' then Some (JNull, drop 3 rest)
          else if take 4 (c # rest) = ''true'' then Some (JBool True, drop 3 rest)
          else if take 5 (c # rest) = ''false'' then Some (JBool False, drop 4 rest)
          else parse_number (c # rest))"
| "parse_array_items 0 s acc = None"
| "parse_array_items (Suc n) s acc =
     (case parse_value n s of
        None \<Rightarrow> None
      | Some (v, rest) \<Rightarrow>
          (case dropWhile is_ws rest of
             [] \<Rightarrow> None
           | c # rest' \<Rightarrow>
               if c = CHR '','' then parse_array_items n rest' (acc @ [v])
               else if c = CHR '']'' then Some (JArr (acc @ [v]), rest')
               else None))"
| "parse_object_items 0 s acc = None"
| "parse_object_items (Suc n) s acc =
     (case dropWhile is_ws s of
        [] \<Rightarrow> None
      | q # rest \<Rightarrow>
          if q \<noteq> CHR ''\"'' then None
          else
            (case parse_string_chars rest [] of
               None \<Rightarrow> None
             | Some (k, rest1) \<Rightarrow>
                 (case dropWhile is_ws rest1 of
                    [] \<Rightarrow> None
                  | c # rest2 \<Rightarrow>
                      if c \<noteq> CHR '':'' then None
                      else
                        (case parse_value n rest2 of
                           None \<Rightarrow> None
                         | Some (v, rest3) \<Rightarrow>
                             (case dropWhile is_ws rest3 of
                                [] \<Rightarrow> None
                              | e # rest4 \<Rightarrow>
                                  if e = CHR '','' then parse_object_items n rest4 (AList.update k v acc)
                                  else if e = CHR ''}'' then Some (JObj (AList.update k v acc), rest4)
                                  else None)))))"

definition ref_json_loads :: "string \<Rightarrow> json option" where
  "ref_json_loads s =
     (case parse_value (Suc (length s)) s of
        None \<Rightarrow> None
      | Some (v, rest) \<Rightarrow> if dropWhile is_ws rest = [] then Some v else None)"

text \<open>
  Stand-ins for the two hash functions in the examples. No proof looks inside them: a
  theorem that holds for every \<open>hmac_sha256\<close> holds for the real one.
\<close>

definition example_mac :: "string \<Rightarrow> string \<Rightarrow> string" where
  "example_mac key msg = take 32 (key @ msg @ replicate 32 (CHR 0x00))"

definition example_digest :: "string \<Rightarrow> string" where
  "example_digest data = data"

definition reference_libs :: libs where
  "reference_libs =
     \<lparr>json_dumps = ref_json_dumps, json_loads = ref_json_loads,
      b64encode = ref_b64encode, b64decode = ref_b64decode,
      hmac_sha256 = example_mac, sha256_hexdigest = example_digest,
      docx_metadata = (\<lambda>doc_bytes. Inl ''unreadable''),
      pdf_metadata = (\<lambda>doc_bytes. Inl ''unreadable'')\<rparr>"

section \<open>Properties of the LSB codec\<close>

subsection \<open>Row-major order is the order of the pixel list\<close>

lemma row_major_Suc: "row_major w (Suc h) = row_major w h @ map (\<lambda>x. (x, h)) [0..<w]"
  by (simp add: row_major_def)

lemma map_coord_row: "map (\<lambda>i. (i mod w, i div w)) [w * h..<w * h + w] = map (\<lambda>x. (x, h)) [0..<w]"
proof -
  have "[w * h..<w * h + w] = map (\<lambda>x. x + w * h) [0..<w]"
    by (simp add: map_add_upt add.commute)
  then show ?thesis by (simp add: comp_def)
qed

lemma row_major_linear: "row_major w h = map (\<lambda>i. (i mod w, i div w)) [0..<w * h]"
proof (induction h)
  case 0
  show ?case by (simp add: row_major_def)
next
  case (Suc h)
  have "[0..<w * h + w] = [0..<w * h] @ [w * h..<w * h + w]"
    by (rule upt_add_eq_append) simp
  moreover have "w * Suc h = w * h + w" by simp
  ultimately have "[0..<w * Suc h] = [0..<w * h] @ [w * h..<w * h + w]"
    by (simp only:)
  then show ?case
    by (simp only: row_major_Suc Suc map_coord_row map_append)
qed

lemma length_row_major: "length (row_major w h) = w * h"
  by (simp add: row_major_linear)

lemma floor_sqrt_bounds: "floor_sqrt n * floor_sqrt n \<le> n \<and> n < (floor_sqrt n + 1) * (floor_sqrt n + 1)"
proof (induction n rule: floor_sqrt.induct)
  case (1 n)
  show ?case
  proof (cases "n = 0")
    case True
    then show ?thesis by (simp add: floor_sqrt.simps)
  next
    case False
    define s where "s = floor_sqrt (n div 4)"
    from 1 False have ih: "s * s \<le> n div 4" "n div 4 < (s + 1) * (s + 1)"
      by (simp_all add: s_def)
    have lo: "(2 * s) * (2 * s) \<le> n"
    proof -
      have "4 * (s * s) \<le> 4 * (n div 4)" using ih(1) by simp
      also have "\<dots> \<le> n" by simp
      finally show ?thesis by (simp add: algebra_simps)
    qed
    have hi: "n < (2 * s + 2) * (2 * s + 2)"
    proof -
      have "n div 4 + 1 \<le> (s + 1) * (s + 1)" using ih(2) by simp
      then have "4 * (n div 4) + 4 \<le> 4 * ((s + 1) * (s + 1))" by simp
      moreover have "n < 4 * (n div 4) + 4" by presburger
      ultimately have "n < 4 * ((s + 1) * (s + 1))" by linarith
      then show ?thesis by (simp add: algebra_simps)
    qed
    have eq: "floor_sqrt n = (if (2 * s + 1) * (2 * s + 1) \<le> n then 2 * s + 1 else 2 * s)"
      using False by (subst floor_sqrt.simps) (simp add: Let_def s_def)
    show ?thesis
    proof (cases "(2 * s + 1) * (2 * s + 1) \<le> n")
      case True
      then have "floor_sqrt n = 2 * s + 1" by (simp add: eq)
      with True hi show ?thesis by simp
    next
      case False
      then have "floor_sqrt n = 2 * s" by (simp add: eq)
      with False lo show ?thesis by simp
    qed
  qed
qed

subsection \<open>The embedding loop in closed form\<close>

lemma getpixel_linear: "getpixel img (i mod width img, i div width img) = pixels img ! i"
  by (simp add: getpixel_def)

lemma putpixel_linear:
  "putpixel img (i mod width img, i div width img) v = img\<lparr>pixels := (pixels img)[i := v]\<rparr>"
  by (simp add: putpixel_def)

lemma map_upt_nth_eq:
  "length xs = n \<Longrightarrow> (\<And>i. i < n \<Longrightarrow> f i = xs ! i) \<Longrightarrow> map f [0..<n] = xs"
  by (intro nth_equalityI) auto

lemma embed_loop_linear:
  "width img = w \<Longrightarrow> length (pixels img) = n \<Longrightarrow>
   embed_loop (map (\<lambda>i. (i mod w, i div w)) [k..<n]) bits img =
     (img\<lparr>pixels := map (\<lambda>i. if k \<le> i \<and> i < k + length bits
                               then (case pixels img ! i of (r, g, b) \<Rightarrow> (r, g, embed_bit b (bits ! (i - k))))
                               else pixels img ! i) [0..<n]\<rparr>,
      length bits < n - k)"
proof (induction bits arbitrary: k img)
  case Nil
  have same: "map (\<lambda>i. if k \<le> i \<and> i < k + length ([]::string)
                 then (case pixels img ! i of (r, g, bl) \<Rightarrow> (r, g, embed_bit bl ([] ! (i - k))))
                 else pixels img ! i) [0..<n] = pixels img"
    using Nil(2) by (rule map_upt_nth_eq) auto
  show ?case
  proof (cases "k < n")
    case True
    then have "[k..<n] = k # [Suc k..<n]" by (rule upt_conv_Cons)
    then have "embed_loop (map (\<lambda>i. (i mod w, i div w)) [k..<n]) [] img = (img, True)"
      by simp
    then show ?thesis using True unfolding same by simp
  next
    case False
    then have "embed_loop (map (\<lambda>i. (i mod w, i div w)) [k..<n]) [] img = (img, False)"
      by simp
    then show ?thesis using False unfolding same by simp
  qed
next
  case (Cons b bs)
  show ?case
  proof (cases "k < n")
    case False
    have "map (\<lambda>i. if k \<le> i \<and> i < k + length (b # bs)
                 then (case pixels img ! i of (r, g, bl) \<Rightarrow> (r, g, embed_bit bl ((b # bs) ! (i - k))))
                 else pixels img ! i) [0..<n] = pixels img"
      using Cons.prems(2) by (rule map_upt_nth_eq) (use False in auto)
    moreover have "embed_loop (map (\<lambda>i. (i mod w, i div w)) [k..<n]) (b # bs) img = (img, False)"
      using False by simp
    ultimately show ?thesis using False by simp
  next
    case True
    obtain r g bl where px: "pixels img ! k = (r, g, bl)" by (cases "pixels img ! k") auto
    define img' where "img' = img\<lparr>pixels := (pixels img)[k := (r, g, embed_bit bl b)]\<rparr>"
    have w': "width img' = w" and n': "length (pixels img') = n"
      using Cons.prems by (simp_all add: img'_def)
    have step: "embed_loop (map (\<lambda>i. (i mod w, i div w)) [k..<n]) (b # bs) img =
                embed_loop (map (\<lambda>i. (i mod w, i div w)) [Suc k..<n]) bs img'"
    proof -
      have "[k..<n] = k # [Suc k..<n]" using True by (rule upt_conv_Cons)
      moreover have "getpixel img (k mod w, k div w) = (r, g, bl)"
        using getpixel_linear[of img k] px Cons.prems(1) by simp
      moreover have "putpixel img (k mod w, k div w) (r, g, embed_bit bl b) = img'"
        using putpixel_linear[of img k] Cons.prems(1) by (simp add: img'_def)
      ultimately show ?thesis by simp
    qed
    have "map (\<lambda>i. if Suc k \<le> i \<and> i < Suc k + length bs
                 then (case pixels img' ! i of (r, g, bl) \<Rightarrow> (r, g, embed_bit bl (bs ! (i - Suc k))))
                 else pixels img' ! i) [0..<n] =
          map (\<lambda>i. if k \<le> i \<and> i < k + length (b # bs)
                 then (case pixels img ! i of (r, g, bl) \<Rightarrow> (r, g, embed_bit bl ((b # bs) ! (i - k))))
                 else pixels img ! i) [0..<n]"
    proof (intro nth_equalityI)
      show "length (map (\<lambda>i. if Suc k \<le> i \<and> i < Suc k + length bs
                 then (case pixels img' ! i of (r, g, bl) \<Rightarrow> (r, g, embed_bit bl (bs ! (i - Suc k))))
                 else pixels img' ! i) [0..<n]) =
          length (map (\<lambda>i. if k \<le> i \<and> i < k + length (b # bs)
                 then (case pixels img ! i of (r, g, bl) \<Rightarrow> (r, g, embed_bit bl ((b # bs) ! (i - k))))
                 else pixels img ! i) [0..<n])" by simp
    next
      fix i
      assume "i < length (map (\<lambda>i. if Suc k \<le> i \<and> i < Suc k + length bs
                 then (case pixels img' ! i of (r, g, bl) \<Rightarrow> (r, g, embed_bit bl (bs ! (i - Suc k))))
                 else pixels img' ! i) [0..<n])"
      then have i: "i < n" by simp
      show "map (\<lambda>i. if Suc k \<le> i \<and> i < Suc k + length bs
                 then (case pixels img' ! i of (r, g, bl) \<Rightarrow> (r, g, embed_bit bl (bs ! (i - Suc k))))
                 else pixels img' ! i) [0..<n] ! i =
          map (\<lambda>i. if k \<le> i \<and> i < k + length (b # bs)
                 then (case pixels img ! i of (r, g, bl) \<Rightarrow> (r, g, embed_bit bl ((b # bs) ! (i - k))))
                 else pixels img ! i) [0..<n] ! i"
      proof (cases "i = k")
        case True
        then show ?thesis using i px Cons.prems(2) by (simp add: img'_def)
      next
        case False
        then show ?thesis using i Cons.prems(2)
          by (auto simp: img'_def nth_Cons' Suc_diff_le)
      qed
    qed
    moreover have "img'\<lparr>pixels := xs\<rparr> = img\<lparr>pixels := xs\<rparr>" for xs
      by (simp add: img'_def)
    moreover have "(length bs < n - Suc k) = (length (b # bs) < n - k)"
      using True by auto
    ultimately show ?thesis
      using Cons.IH[OF w' n', of "Suc k"] step by simp
  qed
qed

subsection \<open>Binary strings and single bits\<close>

lemma binary_to_int_append:
  "binary_to_int (s @ [c]) = 2 * binary_to_int s + (if c = CHR ''1'' then 1 else 0)"
  by (simp add: binary_to_int_def)

lemma binary_to_int_bin_digits: "binary_to_int (bin_digits n) = n"
proof (induction n rule: bin_digits.induct)
  case (1 n)
  show ?case
  proof (cases "n < 2")
    case True
    then have "n = 0 \<or> n = 1" by auto
    then show ?thesis
      by (auto simp: bin_digits.simps[of 0] bin_digits.simps[of 1] bin_digits.simps[of "Suc 0"] binary_to_int_def)
  next
    case False
    then have "bin_digits n = bin_digits (n div 2) @ [if n mod 2 = 0 then CHR ''0'' else CHR ''1'']"
      by (subst bin_digits.simps) simp
    moreover have "binary_to_int (bin_digits (n div 2)) = n div 2"
      using 1 False by simp
    moreover have "2 * (n div 2) + (if n mod 2 = 0 then 0 else 1) = n"
      by (cases "n mod 2 = 0") presburger+
    ultimately show ?thesis
      by (simp add: binary_to_int_append split: if_splits)
  qed
qed

lemma binary_to_int_zeros: "binary_to_int (replicate k (CHR ''0'') @ s) = binary_to_int s"
proof -
  have "foldl (\<lambda>acc c. 2 * acc + (if c = CHR ''1'' then 1 else 0)) (0::nat) (replicate k (CHR ''0'')) = 0"
    by (induction k) simp_all
  then show ?thesis by (simp add: binary_to_int_def)
qed

lemma binary_to_int_int_to_binary: "binary_to_int (int_to_binary n b) = n"
  by (simp add: int_to_binary_def binary_to_int_zeros binary_to_int_bin_digits)

lemma length_bin_digits: "0 < k \<Longrightarrow> n < 2 ^ k \<Longrightarrow> length (bin_digits n) \<le> k"
proof (induction n arbitrary: k rule: bin_digits.induct)
  case (1 n)
  show ?case
  proof (cases "n < 2")
    case True
    then show ?thesis using 1(2) by (subst bin_digits.simps) simp
  next
    case False
    then have eq: "bin_digits n = bin_digits (n div 2) @ [if n mod 2 = 0 then CHR ''0'' else CHR ''1'']"
      by (subst bin_digits.simps) simp
    obtain j where k: "k = Suc j" using 1(2) by (cases k) auto
    have "j \<noteq> 0" using False 1(3) k by (cases j) auto
    moreover have "n div 2 < 2 ^ j" using 1(3) k by auto
    ultimately have "length (bin_digits (n div 2)) \<le> j"
      using 1(1)[OF False, of j] by simp
    then show ?thesis using eq k by simp
  qed
qed

lemma length_int_to_binary: "0 < b \<Longrightarrow> n < 2 ^ b \<Longrightarrow> length (int_to_binary n b) = b"
  using length_bin_digits[of b n] by (simp add: int_to_binary_def)

lemma bin_digits_chars: "set (bin_digits n) \<subseteq> {CHR ''0'', CHR ''1''}"
proof (induction n rule: bin_digits.induct)
  case (1 n)
  show ?case
  proof (cases "n < 2")
    case True
    then show ?thesis by (subst bin_digits.simps) simp
  next
    case False
    then have eq: "bin_digits n = bin_digits (n div 2) @ [if n mod 2 = 0 then CHR ''0'' else CHR ''1'']"
      by (subst bin_digits.simps) simp
    show ?thesis using 1[OF False] unfolding eq by auto
  qed
qed

lemma int_to_binary_chars: "set (int_to_binary n b) \<subseteq> {CHR ''0'', CHR ''1''}"
  using bin_digits_chars[of n] by (auto simp: int_to_binary_def)

lemma extract_embed: "c = CHR ''0'' \<or> c = CHR ''1'' \<Longrightarrow> extract_lsb (embed_bit v c) = c"
proof -
  have a: "(v AND 254) mod 2 = 0"
  proof -
    have "even (v AND 254)" by (simp add: even_and_iff)
    then show ?thesis by (simp add: even_iff_mod_2_eq_zero)
  qed
  have b: "(v OR 1) mod 2 = 1"
  proof -
    have "odd (v OR 1)" by (simp add: even_or_iff)
    then show ?thesis by (simp add: odd_iff_mod_2_eq_one)
  qed
  assume "c = CHR ''0'' \<or> c = CHR ''1''"
  then show ?thesis using a b by (auto simp: extract_lsb_def embed_bit_def)
qed

subsection \<open>The resize policy\<close>

lemma HEADER_TERMINATOR_LEN_8: "HEADER_TERMINATOR_LEN = 8"
  by (simp add: HEADER_TERMINATOR_LEN_def HEADER_TERMINATOR_BIN_def)

lemma width_resize_nearest: "width (resize_nearest img (w, h)) = w"
  and height_resize_nearest: "height (resize_nearest img (w, h)) = h"
  and length_resize_nearest: "length (pixels (resize_nearest img (w, h))) = w * h"
  by (simp_all add: resize_nearest_def length_row_major)

lemma floor_sqrt_4: "floor_sqrt 4 = 2"
  by (simp add: floor_sqrt.simps)

lemma floor_sqrt_25: "floor_sqrt 25 = 5"
  by (simp add: floor_sqrt.simps)

lemma nearest_source_floor:
  assumes "0 < src" and "x < dst"
  shows "nearest_source src dst x (((2 * x + 1) * src) div (2 * dst))"
proof -
  define N where "N = (2 * x + 1) * src"
  define k where "k = 2 * dst"
  have k: "0 < k" using assms(2) by (simp add: k_def)
  have "2 * x + 1 < k" using assms(2) by (simp add: k_def)
  then have "(2 * x + 1) * src < k * src" using assms(1) by (rule mult_less_mono1)
  then have "N < k * src" by (simp only: N_def)
  then have "N < src * k" by (simp add: mult.commute)
  then have 1: "N div k < src" by (rule less_mult_imp_div_less)
  have 2: "k * (N div k) \<le> N" by simp
  have 3: "N \<le> k * (N div k + 1)"
    using dividend_less_times_div[OF k, of N] by simp
  show ?thesis
    unfolding nearest_source_def N_def[symmetric] k_def[symmetric] using 1 2 3 by simp
qed

lemma getpixel_resize_nearest:
  assumes "x < w" and "y < h"
  shows "getpixel (resize_nearest img (w, h)) (x, y) =
           getpixel img (((2 * x + 1) * width img) div (2 * w),
                         ((2 * y + 1) * height img) div (2 * h))"
proof -
  have "y * w + x < w * h"
  proof -
    have "y * w + x < y * w + w" using assms(1) by simp
    also have "\<dots> = (y + 1) * w" by simp
    also have "\<dots> \<le> h * w" using assms(2) by (intro mult_le_mono1) simp
    finally show ?thesis by (simp add: mult.commute)
  qed
  moreover have "(y * w + x) mod w = x" "(y * w + x) div w = y"
    using assms(1) by simp_all
  ultimately show ?thesis
    by (simp add: resize_nearest_def getpixel_def row_major_linear)
qed

lemma resize_nearest_is_nearest:
  assumes "0 < width img" and "0 < height img"
  shows "nearest_neighbour_of img sz (resize_nearest img sz)"
proof (cases sz)
  case (Pair w h)
  have "\<exists>cx cy. nearest_source (width img) w x cx \<and> nearest_source (height img) h y cy
                \<and> getpixel (resize_nearest img (w, h)) (x, y) = getpixel img (cx, cy)"
    if "x < w" "y < h" for x y
    using nearest_source_floor[OF assms(1) that(1)] nearest_source_floor[OF assms(2) that(2)]
      getpixel_resize_nearest[OF that, of img]
    by blast
  then show ?thesis
    by (simp add: Pair nearest_neighbour_of_def wf_image_def width_resize_nearest
          height_resize_nearest length_resize_nearest)
qed

text \<open>
  Claim C6. \<open>P\<close> is the capacity, \<open>A = P - 40\<close> what is left of it after the header,
  below \<open>2^52\<close> (where \<open>int(math.sqrt(A))\<close> is the integer square root), and
  \<open>d = floor_sqrt A\<close>, a function of \<open>A\<close> alone. Pillow's resize is the parameter
  \<open>resize\<close>, a nearest-neighbour resize of every image that is not empty. Then the
  policy fails with the capacity error when \<open>A \<le> 0\<close>; it returns the payload as it is
  when both sides are at most \<open>d\<close>; and when the payload has more than \<open>A\<close> pixels it
  returns the payload resized to the square \<open>d \<times> d\<close>, a well-formed image of that size
  each of whose pixels \<open>(x, y)\<close> is the payload's pixel under the centre of \<open>(x, y)\<close>,
  where \<open>d * d \<le> A < (d + 1) * (d + 1)\<close> and \<open>d * d + 40 \<le> P\<close>.
\<close>

theorem resize_policy:
  fixes resize :: "px1 image \<Rightarrow> nat \<times> nat \<Rightarrow> px1 image"
    and qr_img :: "px1 image" and P :: nat
  defines "A \<equiv> int P - 40"
  defines "d \<equiv> floor_sqrt (nat A)"
  assumes NEAREST: "\<And>img sz. 0 < width img \<Longrightarrow> 0 < height img \<Longrightarrow>
                      nearest_neighbour_of img sz (resize img sz)"
    and bound: "A < 2 ^ 52"
  shows "(A \<le> 0 \<longrightarrow>
            resize_qr_for_capacity_by resize qr_img P =
              Inl (ValueError CapacityTooSmallForHeader))
       \<and> (0 < A \<and> width qr_img \<le> d \<and> height qr_img \<le> d \<longrightarrow>
            resize_qr_for_capacity_by resize qr_img P = Inr qr_img)
       \<and> (0 < A \<and> A < int (width qr_img * height qr_img) \<longrightarrow>
            (\<exists>out. resize_qr_for_capacity_by resize qr_img P = Inr out
                 \<and> out = resize qr_img (d, d)
                 \<and> width out = d \<and> height out = d \<and> wf_image out
                 \<and> (\<forall>x < d. \<forall>y < d.
                      \<exists>cx cy. cx < width qr_img \<and> cy < height qr_img
                        \<and> 2 * d * cx \<le> (2 * x + 1) * width qr_img
                        \<and> (2 * x + 1) * width qr_img \<le> 2 * d * (cx + 1)
                        \<and> 2 * d * cy \<le> (2 * y + 1) * height qr_img
                        \<and> (2 * y + 1) * height qr_img \<le> 2 * d * (cy + 1)
                        \<and> getpixel out (x, y) = getpixel qr_img (cx, cy)))
          \<and> int (d * d) \<le> A \<and> A < int ((d + 1) * (d + 1))
          \<and> d * d + 40 \<le> P
          \<and> d < 2 ^ 26)"
proof (intro conjI impI)
  assume "A \<le> 0"
  then show "resize_qr_for_capacity_by resize qr_img P =
               Inl (ValueError CapacityTooSmallForHeader)"
    by (simp add: resize_qr_for_capacity_by_def A_def HEADER_TERMINATOR_LEN_8)
next
  assume "0 < A \<and> width qr_img \<le> d \<and> height qr_img \<le> d"
  then show "resize_qr_for_capacity_by resize qr_img P = Inr qr_img"
    by (simp add: resize_qr_for_capacity_by_def A_def d_def HEADER_TERMINATOR_LEN_8 Let_def)
next
  assume h: "0 < A \<and> A < int (width qr_img * height qr_img)"
  have sq: "d * d \<le> nat A" "nat A < (d + 1) * (d + 1)"
    using floor_sqrt_bounds[of "nat A"] by (simp_all add: d_def)
  have notfit: "\<not> (width qr_img \<le> d \<and> height qr_img \<le> d)"
  proof
    assume "width qr_img \<le> d \<and> height qr_img \<le> d"
    then have "width qr_img * height qr_img \<le> d * d" by (simp add: mult_le_mono)
    with sq(1) h show False by linarith
  qed
  have r: "resize_qr_for_capacity_by resize qr_img P = Inr (resize qr_img (d, d))"
    using h notfit
    by (auto simp: resize_qr_for_capacity_by_def A_def[symmetric] d_def[symmetric]
          HEADER_TERMINATOR_LEN_8 Let_def)
  have "0 < width qr_img * height qr_img" using h by linarith
  then have nonempty: "0 < width qr_img" "0 < height qr_img" by simp_all
  have nn: "nearest_neighbour_of qr_img (d, d) (resize qr_img (d, d))"
    using nonempty by (rule NEAREST)
  show "\<exists>out. resize_qr_for_capacity_by resize qr_img P = Inr out
                 \<and> out = resize qr_img (d, d)
                 \<and> width out = d \<and> height out = d \<and> wf_image out
                 \<and> (\<forall>x < d. \<forall>y < d.
                      \<exists>cx cy. cx < width qr_img \<and> cy < height qr_img
                        \<and> 2 * d * cx \<le> (2 * x + 1) * width qr_img
                        \<and> (2 * x + 1) * width qr_img \<le> 2 * d * (cx + 1)
                        \<and> 2 * d * cy \<le> (2 * y + 1) * height qr_img
                        \<and> (2 * y + 1) * height qr_img \<le> 2 * d * (cy + 1)
                        \<and> getpixel out (x, y) = getpixel qr_img (cx, cy))"
    using r nn unfolding nearest_neighbour_of_def nearest_source_def fst_conv snd_conv
    by blast
  show "int (d * d) \<le> A" using sq(1) h by linarith
  show "A < int ((d + 1) * (d + 1))" using sq(2) h by linarith
  show "d * d + 40 \<le> P"
  proof -
    have "nat A = P - 40" by (simp add: A_def)
    moreover have "40 < P" using h by (simp add: A_def)
    ultimately show ?thesis using sq(1) by linarith
  qed
  show "d < 2 ^ 26"
  proof (rule ccontr)
    assume "\<not> d < 2 ^ 26"
    then have le: "(2::nat) ^ 26 \<le> d" by (simp only: not_less)
    from le le have "(2::nat) ^ 26 * 2 ^ 26 \<le> d * d" by (rule mult_le_mono)
    moreover have "(2::nat) ^ 26 * 2 ^ 26 = 2 ^ 52" by (simp only: power_add[symmetric]) simp
    ultimately have "(2::nat) ^ 52 \<le> nat A" using sq(1) by (simp only: order_trans)
    then have "int (2 ^ 52) \<le> int (nat A)" by (simp only: of_nat_le_iff)
    then have "(2::int) ^ 52 \<le> A" using h by simp
    with bound show False by simp
  qed
qed

theorem resize_policy_witness:
  "resize_qr_for_capacity_by resize_nearest
     \<lparr>width = 5, height = 3,
      pixels = [White, Black, White, White, White,
                White, White, White, White, White,
                White, Black, White, Black, White]\<rparr> 40 =
     Inl (ValueError CapacityTooSmallForHeader)
   \<and> resize_qr_for_capacity_by resize_nearest
     \<lparr>width = 5, height = 3,
      pixels = [White, Black, White, White, White,
                White, White, White, White, White,
                White, Black, White, Black, White]\<rparr> 65 =
     Inr \<lparr>width = 5, height = 3,
      pixels = [White, Black, White, White, White,
                White, White, White, White, White,
                White, Black, White, Black, White]\<rparr>
   \<and> resize_qr_for_capacity_by resize_nearest
     \<lparr>width = 5, height = 3,
      pixels = [White, Black, White, White, White,
                White, White, White, White, White,
                White, Black, White, Black, White]\<rparr> 44 =
     Inr \<lparr>width = 2, height = 2, pixels = [Black, White, Black, Black]\<rparr>
   \<and> (2::nat) * 2 + 40 \<le> 44"
proof -
  define q :: "px1 image" where "q =
     \<lparr>width = 5, height = 3,
      pixels = [White, Black, White, White, White,
                White, White, White, White, White,
                White, Black, White, Black, White]\<rparr>"
  have lib: "\<And>img :: px1 image. \<And>sz. 0 < width img \<Longrightarrow> 0 < height img \<Longrightarrow>
               nearest_neighbour_of img sz (resize_nearest img sz)"
    by (rule resize_nearest_is_nearest)
  have rm: "row_major 2 2 = [(0, 0), (1, 0), (0, 1), (1, 1)]"
    by (simp add: row_major_def numeral_2_eq_2)
  have r: "resize_nearest q (2, 2) = \<lparr>width = 2, height = 2, pixels = [Black, White, Black, Black]\<rparr>"
    by (simp add: resize_nearest_def q_def getpixel_def rm)
  have 1: "resize_qr_for_capacity_by resize_nearest q 40 = Inl (ValueError CapacityTooSmallForHeader)"
    using resize_policy[of resize_nearest 40 q, OF lib] by simp
  have 2: "resize_qr_for_capacity_by resize_nearest q 65 = Inr q"
    using resize_policy[of resize_nearest 65 q, OF lib] by (simp add: floor_sqrt_25 q_def)
  have 3: "resize_qr_for_capacity_by resize_nearest q 44 = Inr (resize_nearest q (2, 2))"
    using resize_policy[of resize_nearest 44 q, OF lib] by (simp add: floor_sqrt_4 q_def)
  show ?thesis
    using 1 2 3 unfolding r unfolding q_def by simp
qed


subsection \<open>The capacity error without resizing\<close>

text \<open>
  Claim C9. When the cover and the payload exist, the output path ends in \<open>.png\<close>, the
  payload with its header does not fit the cover and \<open>resize_qr_if_needed\<close> is false,
  the call raises the capacity error of the first check, no resize is computed, and the
  files are as they were: nothing is written to the output path and the cover is kept.
\<close>

theorem capacity_error_without_resize:
  assumes "files cover_image_path = Some cover_file"
    and "files qr_image_path = Some qr_file"
    and "ends_with_png output_stego_path"
    and "width (convert_1 dither qr_file) * height (convert_1 dither qr_file) + 40
           > width (convert_RGB cover_file) * height (convert_RGB cover_file)"
  shows "embed_qr_to_image dither files cover_image_path qr_image_path output_stego_path False =
           (Inl (ValueError (CapacityInsufficient
              (40 + width (convert_1 dither qr_file) * height (convert_1 dither qr_file))
              (width (convert_RGB cover_file) * height (convert_RGB cover_file)))), files)"
  using assms
  by (simp add: embed_qr_to_image_def embed_images_def fit_qr_def HEADER_TERMINATOR_LEN_8 Let_def)

theorem capacity_error_without_resize_witness:
  "embed_qr_to_image (\<lambda>img. Image_new (width img) (height img))
     [''cover.png'' \<mapsto> RGBFile \<lparr>width = 20, height = 20, pixels = replicate 400 (0, 0, 0)\<rparr>,
      ''qr.png'' \<mapsto> BilevelFile (Image_new 30 30)]
     ''cover.png'' ''qr.png'' ''stego.png'' False =
   (Inl (ValueError (CapacityInsufficient 940 400)),
     [''cover.png'' \<mapsto> RGBFile \<lparr>width = 20, height = 20, pixels = replicate 400 (0, 0, 0)\<rparr>,
      ''qr.png'' \<mapsto> BilevelFile (Image_new 30 30)])"
proof -
  have png: "ends_with_png ''stego.png''"
    by (simp add: ends_with_png_def lower_char_def suffix_def)
  show ?thesis
    using capacity_error_without_resize[where dither = "\<lambda>img. Image_new (width img) (height img)"
        and files = "[''cover.png'' \<mapsto> RGBFile \<lparr>width = 20, height = 20, pixels = replicate 400 (0, 0, 0)\<rparr>,
            ''qr.png'' \<mapsto> BilevelFile (Image_new 30 30)]"
        and cover_image_path = "''cover.png''" and qr_image_path = "''qr.png''"
        and output_stego_path = "''stego.png''", OF _ _ png]
    by (simp add: Image_new_def)
qed

subsection \<open>The extraction loops in closed form\<close>

lemma terminator_suffix:
  assumes "length ex = 40" and "\<forall>i. 32 \<le> i \<and> i < 40 \<longrightarrow> ex ! i = CHR ''0''"
  shows "suffix HEADER_TERMINATOR_BIN ex"
proof -
  have "drop 32 ex = replicate 8 (CHR ''0'')"
    using assms by (intro nth_equalityI) auto
  then have "drop 32 ex = HEADER_TERMINATOR_BIN"
    by (simp add: HEADER_TERMINATOR_BIN_def numeral_eq_Suc)
  then have "ex = take 32 ex @ HEADER_TERMINATOR_BIN"
    by (metis append_take_drop_id)
  then show ?thesis unfolding suffix_def by blast
qed

lemma header_loop_continue:
  assumes "ex' = ex @ [extract_lsb (blue (getpixel img xy))]" and "length ex' < 40"
  shows "header_loop (xy # rest) img ex p = header_loop rest img ex' (p + 1)"
proof -
  note s = header_loop.simps(2)[of xy rest img ex p,
      unfolded Let_def HEADER_TERMINATOR_LEN_8, folded assms(1)]
  show ?thesis unfolding s using assms(2) by simp
qed

lemma header_loop_found:
  assumes "ex' = ex @ [extract_lsb (blue (getpixel img xy))]" and "length ex' = 40"
    and "suffix HEADER_TERMINATOR_BIN ex'"
  shows "header_loop (xy # rest) img ex p =
           Inr (binary_to_int (take 16 (take 32 ex')), binary_to_int (drop 16 (take 32 ex')), p + 1)"
proof -
  note s = header_loop.simps(2)[of xy rest img ex p,
      unfolded Let_def HEADER_TERMINATOR_LEN_8, folded assms(1)]
  show ?thesis unfolding s using assms(2,3) by simp
qed

lemma header_loop_linear:
  assumes w: "width img = w" and n: "length (pixels img) = n" and n40: "40 \<le> n"
    and tz: "\<forall>i. 32 \<le> i \<and> i < 40 \<longrightarrow> extract_lsb (blue (pixels img ! i)) = CHR ''0''"
  shows "k < 40 \<Longrightarrow> ex = map (\<lambda>i. extract_lsb (blue (pixels img ! i))) [0..<k] \<Longrightarrow>
    header_loop (map (\<lambda>i. (i mod w, i div w)) [k..<n]) img ex k =
      Inr (binary_to_int (map (\<lambda>i. extract_lsb (blue (pixels img ! i))) [0..<16]),
           binary_to_int (map (\<lambda>i. extract_lsb (blue (pixels img ! i))) [16..<32]), 40)"
proof (induction "39 - k" arbitrary: k ex)
  case 0
  then have k: "k = 39" by simp
  define ex' where "ex' = ex @ [extract_lsb (blue (pixels img ! k))]"
  have "ex' = map (\<lambda>i. extract_lsb (blue (pixels img ! i))) [0..<Suc k]"
    using 0(3) by (simp add: ex'_def)
  moreover have "Suc k = 40" using k by simp
  ultimately have ex': "ex' = map (\<lambda>i. extract_lsb (blue (pixels img ! i))) [0..<40]"
    by (simp only:)
  have len: "length ex' = 40" by (simp add: ex')
  have suf: "suffix HEADER_TERMINATOR_BIN ex'"
    using len tz by (intro terminator_suffix) (auto simp: ex')
  have t16: "take 16 (take 32 ex') = map (\<lambda>i. extract_lsb (blue (pixels img ! i))) [0..<16]"
    by (simp add: ex' take_map)
  have d16: "drop 16 (take 32 ex') = map (\<lambda>i. extract_lsb (blue (pixels img ! i))) [16..<32]"
    by (simp add: ex' take_map drop_map)
  have cons: "[k..<n] = k # [Suc k..<n]" using k n40 by (intro upt_conv_Cons) simp
  have gp: "getpixel img (k mod w, k div w) = pixels img ! k"
    using getpixel_linear[of img k] w by simp
  have e: "ex' = ex @ [extract_lsb (blue (getpixel img (k mod w, k div w)))]"
    by (simp only: gp ex'_def)
  have "header_loop (map (\<lambda>i. (i mod w, i div w)) [k..<n]) img ex k =
        header_loop ((k mod w, k div w) # map (\<lambda>i. (i mod w, i div w)) [Suc k..<n]) img ex k"
    by (simp only: cons list.map)
  also have "\<dots> = Inr (binary_to_int (take 16 (take 32 ex')), binary_to_int (drop 16 (take 32 ex')), k + 1)"
    by (rule header_loop_found[OF e len suf])
  finally show ?case using k by (simp only: t16 d16) simp
next
  case (Suc m)
  then have k: "k < 39" by simp
  define ex' where "ex' = ex @ [extract_lsb (blue (pixels img ! k))]"
  have ex': "ex' = map (\<lambda>i. extract_lsb (blue (pixels img ! i))) [0..<Suc k]"
    using Suc(4) by (simp add: ex'_def)
  have len: "length ex' = Suc k" by (simp add: ex')
  have cons: "[k..<n] = k # [Suc k..<n]" using k n40 by (intro upt_conv_Cons) simp
  have gp: "getpixel img (k mod w, k div w) = pixels img ! k"
    using getpixel_linear[of img k] w by simp
  have e: "ex' = ex @ [extract_lsb (blue (getpixel img (k mod w, k div w)))]"
    by (simp only: gp ex'_def)
  have len40: "length ex' < 40" using len k by simp
  have "header_loop (map (\<lambda>i. (i mod w, i div w)) [k..<n]) img ex k =
        header_loop ((k mod w, k div w) # map (\<lambda>i. (i mod w, i div w)) [Suc k..<n]) img ex k"
    by (simp only: cons list.map)
  also have "\<dots> = header_loop (map (\<lambda>i. (i mod w, i div w)) [Suc k..<n]) img ex' (Suc k)"
    using header_loop_continue[OF e len40] by simp
  also have "\<dots> = Inr (binary_to_int (map (\<lambda>i. extract_lsb (blue (pixels img ! i))) [0..<16]),
           binary_to_int (map (\<lambda>i. extract_lsb (blue (pixels img ! i))) [16..<32]), 40)"
    using Suc(2) k by (intro Suc(1)[OF _ _ ex']) auto
  finally show ?case .
qed

lemma rows_from_linear:
  "a \<le> h \<Longrightarrow> concat (map (\<lambda>y. map (\<lambda>x. (x, y)) [0..<w]) [a..<h]) =
     map (\<lambda>i. (i mod w, i div w)) [w * a..<w * h]"
proof (induction h)
  case 0
  then show ?case by simp
next
  case (Suc h)
  show ?case
  proof (cases "a = Suc h")
    case True
    then show ?thesis by simp
  next
    case False
    with Suc.prems have ah: "a \<le> h" by simp
    have le: "w * a \<le> w * h" using ah by simp
    have "[w * a..<w * h + w] = [w * a..<w * h] @ [w * h..<w * h + w]"
      using le by (rule upt_add_eq_append)
    moreover have "w * Suc h = w * h + w" by simp
    ultimately have split: "[w * a..<w * Suc h] = [w * a..<w * h] @ [w * h..<w * h + w]"
      by (simp only:)
    have "[a..<Suc h] = [a..<h] @ [h]" using ah by simp
    then show ?thesis
      by (simp only: split map_append concat_append Suc.IH[OF ah] map_coord_row
          list.map concat.simps append_Nil2)
  qed
qed

lemma filter_ge_upt: "a \<le> p \<Longrightarrow> filter (\<lambda>i. p \<le> i) [a..<b] = [p..<b]"
proof (induction b)
  case 0
  then show ?case by simp
next
  case (Suc b)
  then show ?case by (cases "p \<le> b") auto
qed

lemma coord_ge_iff:
  fixes w i p :: nat
  assumes "0 < w"
  shows "(i div w > p div w \<or> (i div w = p div w \<and> i mod w \<ge> p mod w)) = (p \<le> i)"
proof
  assume h: "i div w > p div w \<or> (i div w = p div w \<and> i mod w \<ge> p mod w)"
  show "p \<le> i"
  proof (rule ccontr)
    assume "\<not> p \<le> i"
    then have lt: "i < p" by simp
    then have "i div w \<le> p div w" by (simp add: div_le_mono)
    with h have eq: "i div w = p div w" and m: "i mod w \<ge> p mod w" by auto
    have "i = w * (i div w) + i mod w" by simp
    moreover have "p = w * (p div w) + p mod w" by simp
    ultimately have "p \<le> i" using eq m by (metis add_le_cancel_left)
    with lt show False by simp
  qed
next
  assume le: "p \<le> i"
  then have d: "p div w \<le> i div w" by (simp add: div_le_mono)
  show "i div w > p div w \<or> (i div w = p div w \<and> i mod w \<ge> p mod w)"
  proof (cases "p div w = i div w")
    case True
    have "i = w * (i div w) + i mod w" by simp
    moreover have "p = w * (p div w) + p mod w" by simp
    ultimately have "p mod w \<le> i mod w" using True le by (metis add_le_cancel_left)
    with True show ?thesis by simp
  next
    case False
    with d show ?thesis by simp
  qed
qed

lemma pixel_iterator_linear:
  assumes "0 < w" and "p \<le> w * h"
  shows "pixel_iterator w h p m = take m (map (\<lambda>i. (i mod w, i div w)) [p..<w * h])"
proof -
  have a: "p div w \<le> h"
  proof -
    have "p div w \<le> (w * h) div w" using assms(2) by (rule div_le_mono)
    then show ?thesis using assms(1) by simp
  qed
  have b: "w * (p div w) \<le> p" by simp
  have "filter (\<lambda>(x, y). y > p div w \<or> (y = p div w \<and> x \<ge> p mod w))
          (map (\<lambda>i. (i mod w, i div w)) [w * (p div w)..<w * h]) =
        map (\<lambda>i. (i mod w, i div w)) (filter (\<lambda>i. p \<le> i) [w * (p div w)..<w * h])"
    by (simp add: filter_map comp_def coord_ge_iff[OF assms(1)])
  then show ?thesis
    unfolding pixel_iterator_def Let_def rows_from_linear[OF a]
    by (simp only: filter_ge_upt[OF b])
qed

lemma reconstruct_loop_linear:
  "width img = w \<Longrightarrow> length (pixels img) = n \<Longrightarrow> k \<le> n \<Longrightarrow>
   reconstruct_loop (map (\<lambda>i. (i mod w, i div w)) [k..<n]) bits k img =
     img\<lparr>pixels := map (\<lambda>i. if k \<le> i then (if bits ! i = CHR ''1'' then Black else White)
                              else pixels img ! i) [0..<n]\<rparr>"
proof (induction "n - k" arbitrary: k img)
  case 0
  then have "k = n" by simp
  moreover have "map (\<lambda>i. if n \<le> i then (if bits ! i = CHR ''1'' then Black else White)
                              else pixels img ! i) [0..<n] = pixels img"
    using 0(3) by (rule map_upt_nth_eq) auto
  ultimately show ?case by simp
next
  case (Suc m)
  then have kn: "k < n" by simp
  define v where "v = (if bits ! k = CHR ''1'' then Black else White)"
  define img' where "img' = img\<lparr>pixels := (pixels img)[k := v]\<rparr>"
  have w': "width img' = w" and n': "length (pixels img') = n"
    using Suc.prems by (simp_all add: img'_def)
  have cons: "[k..<n] = k # [Suc k..<n]" using kn by (rule upt_conv_Cons)
  have pp: "putpixel img (k mod w, k div w) v = img'"
    using putpixel_linear[of img k] Suc.prems(1) by (simp add: img'_def)
  have "reconstruct_loop (map (\<lambda>i. (i mod w, i div w)) [k..<n]) bits k img =
        reconstruct_loop (map (\<lambda>i. (i mod w, i div w)) [Suc k..<n]) bits (Suc k) img'"
    unfolding cons by (simp add: pp v_def[symmetric])
  also have "\<dots> = img'\<lparr>pixels := map (\<lambda>i. if Suc k \<le> i then (if bits ! i = CHR ''1'' then Black else White)
                              else pixels img' ! i) [0..<n]\<rparr>"
    using Suc(2) kn by (intro Suc(1)[OF _ w' n']) auto
  also have "\<dots> = img\<lparr>pixels := map (\<lambda>i. if k \<le> i then (if bits ! i = CHR ''1'' then Black else White)
                              else pixels img ! i) [0..<n]\<rparr>"
  proof -
    have "map (\<lambda>i. if Suc k \<le> i then (if bits ! i = CHR ''1'' then Black else White)
                              else pixels img' ! i) [0..<n] =
          map (\<lambda>i. if k \<le> i then (if bits ! i = CHR ''1'' then Black else White)
                              else pixels img ! i) [0..<n]"
    proof (rule map_upt_nth_eq)
      show "length (map (\<lambda>i. if k \<le> i then (if bits ! i = CHR ''1'' then Black else White)
                              else pixels img ! i) [0..<n]) = n" by simp
    next
      fix i assume "i < n"
      then show "(if Suc k \<le> i then (if bits ! i = CHR ''1'' then Black else White)
                              else pixels img' ! i) =
          map (\<lambda>i. if k \<le> i then (if bits ! i = CHR ''1'' then Black else White)
                              else pixels img ! i) [0..<n] ! i"
        using Suc.prems(2) kn by (cases "i = k") (auto simp: img'_def v_def)
    qed
    then show ?thesis by (simp add: img'_def)
  qed
  finally show ?case .
qed

subsection \<open>What one embedded bit does to a byte\<close>

lemma embed_bit_and_not: "embed_bit v (CHR ''0'') = v AND NOT 1"
proof -
  have h: "(254 :: 8 word) = NOT 1" by simp
  show ?thesis unfolding embed_bit_def by (simp only: h simp_thms if_True)
qed

lemma embed_bit_bit0: "bit (embed_bit v c) 0 = (c \<noteq> CHR ''0'')"
  by (simp add: embed_bit_def bit_and_iff bit_or_iff)

lemma embed_bit_other_bits: "0 < n \<Longrightarrow> bit (embed_bit v c) n = bit v n"
proof (cases "c = CHR ''0''")
  case True
  assume pos: "0 < n"
  then have "\<not> bit (1 :: 8 word) n" by (simp add: bit_1_iff)
  moreover have "bit v n \<Longrightarrow> n < 8" using bit_imp_le_length[of v n] by simp
  ultimately have "bit (v AND NOT 1) n = bit v n"
    using pos by (auto simp: bit_and_iff bit_not_iff)
  then show ?thesis using True by (simp only: embed_bit_and_not)
next
  case False
  assume "0 < n"
  then have "\<not> bit (1 :: 8 word) n" by (simp add: bit_1_iff)
  then show ?thesis using False by (simp add: embed_bit_def bit_or_iff)
qed

subsection \<open>The embedder in closed form\<close>

lemma length_qr_bits_of: "length (qr_bits_of qr_img) = width qr_img * height qr_img"
  by (simp add: qr_bits_of_def length_row_major)

lemma length_header_bits_of:
  "width qr_img < 65536 \<Longrightarrow> height qr_img < 65536 \<Longrightarrow> length (header_bits_of qr_img) = 40"
  using length_int_to_binary[of 16 "width qr_img"] length_int_to_binary[of 16 "height qr_img"]
  by (simp add: header_bits_of_def HEADER_TERMINATOR_BIN_def)

lemma fit_qr_fits:
  assumes "fit_qr qr_img0 P resize = Inr qr_img"
  shows "40 + width qr_img * height qr_img \<le> P"
proof (cases "40 + width qr_img0 * height qr_img0 > P")
  case False
  then show ?thesis using assms by (simp add: fit_qr_def HEADER_TERMINATOR_LEN_8 Let_def)
next
  case True
  then have r: "resize_qr_for_capacity qr_img0 P = Inr qr_img"
    using assms by (simp add: fit_qr_def HEADER_TERMINATOR_LEN_8 Let_def split: if_splits)
  define d where "d = floor_sqrt (nat (int P - 40))"
  have pos: "40 < P"
    using r by (auto simp: resize_qr_for_capacity_def resize_qr_for_capacity_by_def
          HEADER_TERMINATOR_LEN_8 Let_def split: if_splits)
  have sq: "d * d \<le> P - 40"
    using floor_sqrt_bounds[of "nat (int P - 40)"] pos by (simp add: d_def nat_diff_distrib)
  have "width qr_img \<le> d \<and> height qr_img \<le> d"
    using r pos
    by (auto simp: resize_qr_for_capacity_def resize_qr_for_capacity_by_def
          HEADER_TERMINATOR_LEN_8 Let_def d_def[symmetric]
          width_resize_nearest height_resize_nearest split: if_splits)
  then have "width qr_img * height qr_img \<le> d * d" by (simp add: mult_le_mono)
  with sq pos show ?thesis by linarith
qed

lemma embed_images_closed:
  assumes wf: "wf_image cover_img"
    and fit: "fit_qr qr_img0 (width cover_img * height cover_img) resize = Inr qr_img"
    and len: "length (header_bits_of qr_img @ qr_bits_of qr_img) \<le> width cover_img * height cover_img"
  shows "embed_images cover_img qr_img0 resize =
     Inr (cover_img\<lparr>pixels :=
            map (\<lambda>i. if i < length (header_bits_of qr_img @ qr_bits_of qr_img)
                      then (case pixels cover_img ! i of
                              (r, g, b) \<Rightarrow> (r, g, embed_bit b ((header_bits_of qr_img @ qr_bits_of qr_img) ! i)))
                      else pixels cover_img ! i)
              [0..<width cover_img * height cover_img]\<rparr>,
          length (header_bits_of qr_img @ qr_bits_of qr_img) < width cover_img * height cover_img)"
proof -
  have n: "length (pixels cover_img) = width cover_img * height cover_img"
    using wf by (simp add: wf_image_def)
  have "embed_loop (row_major (width cover_img) (height cover_img))
           (header_bits_of qr_img @ qr_bits_of qr_img) cover_img =
        embed_loop (map (\<lambda>i. (i mod width cover_img, i div width cover_img))
           [0..<width cover_img * height cover_img])
           (header_bits_of qr_img @ qr_bits_of qr_img) cover_img"
    by (simp only: row_major_linear)
  also have "\<dots> = (cover_img\<lparr>pixels :=
            map (\<lambda>i. if 0 \<le> i \<and> i < 0 + length (header_bits_of qr_img @ qr_bits_of qr_img)
                      then (case pixels cover_img ! i of
                              (r, g, b) \<Rightarrow> (r, g, embed_bit b ((header_bits_of qr_img @ qr_bits_of qr_img) ! (i - 0))))
                      else pixels cover_img ! i)
              [0..<width cover_img * height cover_img]\<rparr>,
          length (header_bits_of qr_img @ qr_bits_of qr_img) < width cover_img * height cover_img - 0)"
    by (rule embed_loop_linear[OF refl n])
  finally have loop: "embed_loop (row_major (width cover_img) (height cover_img))
           (header_bits_of qr_img @ qr_bits_of qr_img) cover_img =
       (cover_img\<lparr>pixels :=
            map (\<lambda>i. if i < length (header_bits_of qr_img @ qr_bits_of qr_img)
                      then (case pixels cover_img ! i of
                              (r, g, b) \<Rightarrow> (r, g, embed_bit b ((header_bits_of qr_img @ qr_bits_of qr_img) ! i)))
                      else pixels cover_img ! i)
              [0..<width cover_img * height cover_img]\<rparr>,
          length (header_bits_of qr_img @ qr_bits_of qr_img) < width cover_img * height cover_img)"
    by simp
  show ?thesis
    unfolding embed_images_def Let_def fit
    using len by (simp add: loop)
qed

lemma embed_closed_form:
  assumes cover: "files cover_image_path = Some cover_file"
    and qr: "files qr_image_path = Some qr_file"
    and png: "ends_with_png output_stego_path"
    and wf: "wf_image (convert_RGB cover_file)"
    and fit: "fit_qr (convert_1 dither qr_file)
                (width (convert_RGB cover_file) * height (convert_RGB cover_file))
                resize_qr_if_needed = Inr qr_img"
    and u16: "width qr_img < 65536" "height qr_img < 65536"
  shows "\<exists>stego_img.
      embed_qr_to_image dither files cover_image_path qr_image_path output_stego_path
          resize_qr_if_needed =
        (Inr (), if 40 + width qr_img * height qr_img
                      < width (convert_RGB cover_file) * height (convert_RGB cover_file)
                 then files(output_stego_path := Some (RGBFile stego_img)) else files)
    \<and> length (header_bits_of qr_img @ qr_bits_of qr_img) = 40 + width qr_img * height qr_img
    \<and> width stego_img = width (convert_RGB cover_file)
    \<and> height stego_img = height (convert_RGB cover_file)
    \<and> wf_image stego_img
    \<and> (\<forall>x y. x < width (convert_RGB cover_file) \<and> y < height (convert_RGB cover_file) \<longrightarrow>
          getpixel stego_img (x, y) =
            (case getpixel (convert_RGB cover_file) (x, y) of
               (r, g, b) \<Rightarrow>
                 (r, g, if y * width (convert_RGB cover_file) + x < 40 + width qr_img * height qr_img
                        then embed_bit b ((header_bits_of qr_img @ qr_bits_of qr_img)
                                            ! (y * width (convert_RGB cover_file) + x))
                        else b)))
    \<and> (\<forall>v. embed_bit v (CHR ''0'') = v AND NOT 1 \<and> embed_bit v (CHR ''1'') = v OR 1)
    \<and> (\<forall>v c n. 0 < n \<longrightarrow> bit (embed_bit v c) n = bit v n)"
proof -
  define cover_img where "cover_img = convert_RGB cover_file"
  define W where "W = width cover_img"
  define H where "H = height cover_img"
  define bits where "bits = header_bits_of qr_img @ qr_bits_of qr_img"
  define stego_img where "stego_img = cover_img\<lparr>pixels :=
            map (\<lambda>i. if i < length bits
                      then (case pixels cover_img ! i of (r, g, b) \<Rightarrow> (r, g, embed_bit b (bits ! i)))
                      else pixels cover_img ! i) [0..<W * H]\<rparr>"
  have lenb: "length bits = 40 + width qr_img * height qr_img"
    using u16 by (simp add: bits_def length_header_bits_of length_qr_bits_of)
  have fits: "40 + width qr_img * height qr_img \<le> W * H"
    using fit_qr_fits[OF fit] by (simp add: W_def H_def cover_img_def)
  have n: "length (pixels cover_img) = W * H"
    using wf by (simp add: wf_image_def cover_img_def W_def H_def)
  have emb: "embed_images cover_img (convert_1 dither qr_file) resize_qr_if_needed =
      Inr (stego_img, length bits < W * H)"
    unfolding stego_img_def bits_def W_def H_def
    by (rule embed_images_closed)
       (use wf fit fits lenb in \<open>simp_all add: cover_img_def bits_def W_def H_def\<close>)
  have run: "embed_qr_to_image dither files cover_image_path qr_image_path output_stego_path
          resize_qr_if_needed =
        (Inr (), if 40 + width qr_img * height qr_img < W * H
                 then files(output_stego_path := Some (RGBFile stego_img)) else files)"
    using cover qr png emb lenb
    by (simp add: embed_qr_to_image_def cover_img_def[symmetric])
  have px: "getpixel stego_img (x, y) =
            (case getpixel cover_img (x, y) of
               (r, g, b) \<Rightarrow> (r, g, if y * W + x < 40 + width qr_img * height qr_img
                        then embed_bit b (bits ! (y * W + x)) else b))"
    if "x < W" "y < H" for x y
  proof -
    have "y * W + x < Suc y * W" using that(1) by simp
    also have "\<dots> \<le> H * W" using that(2) by (intro mult_le_mono1) simp
    finally have i: "y * W + x < W * H" by (simp add: mult.commute)
    have ws: "width stego_img = W" by (simp add: stego_img_def W_def)
    show ?thesis
      using i lenb
      by (simp add: getpixel_def ws W_def[symmetric] stego_img_def split: prod.splits)
  qed
  have "width stego_img = W" "height stego_img = H" "wf_image stego_img"
    by (simp_all add: stego_img_def W_def H_def wf_image_def)
  moreover have "embed_bit v (CHR ''1'') = v OR 1" for v
    by (simp add: embed_bit_def)
  ultimately show ?thesis
    using run lenb px embed_bit_and_not embed_bit_other_bits
    unfolding W_def H_def cover_img_def bits_def
    by (intro exI[of _ stego_img]) (simp only: simp_thms; blast)
qed

lemma ends_with_png_s: "ends_with_png ''s.png''"
  by (simp add: ends_with_png_def lower_char_def suffix_def)

subsection \<open>Embedding changes the low blue bit of the leading pixels and nothing else\<close>

text \<open>
  Claim C7. When the call goes through with a payload whose sides fit the 16-bit header
  fields, the bit stream has \<open>40 + w * h\<close> bits, the pixel at \<open>(x, y)\<close> takes bit number
  \<open>y * width + x\<close> of it (row-major order from \<open>(0, 0)\<close>), red and green are kept at
  every pixel, blue is kept at every pixel from number \<open>40 + w * h\<close> on, and below that
  blue becomes \<open>embed_bit\<close> of the old blue and the bit: \<open>value AND NOT 1\<close> for the bit 0,
  \<open>value OR 1\<close> for the bit 1, every bit above the lowest unchanged.
\<close>

theorem embed_writes_only_blue_lsb:
  assumes cover: "files cover_image_path = Some cover_file"
    and qr: "files qr_image_path = Some qr_file"
    and png: "ends_with_png output_stego_path"
    and wf: "wf_image (convert_RGB cover_file)"
    and fit: "fit_qr (convert_1 dither qr_file)
                (width (convert_RGB cover_file) * height (convert_RGB cover_file))
                resize_qr_if_needed = Inr qr_img"
    and u16: "width qr_img < 65536" "height qr_img < 65536"
  shows "\<exists>stego_img.
      embed_qr_to_image dither files cover_image_path qr_image_path output_stego_path
          resize_qr_if_needed =
        (Inr (), if 40 + width qr_img * height qr_img
                      < width (convert_RGB cover_file) * height (convert_RGB cover_file)
                 then files(output_stego_path := Some (RGBFile stego_img)) else files)
    \<and> length (header_bits_of qr_img @ qr_bits_of qr_img) = 40 + width qr_img * height qr_img
    \<and> width stego_img = width (convert_RGB cover_file)
    \<and> height stego_img = height (convert_RGB cover_file)
    \<and> wf_image stego_img
    \<and> (\<forall>x y. x < width (convert_RGB cover_file) \<and> y < height (convert_RGB cover_file) \<longrightarrow>
          getpixel stego_img (x, y) =
            (case getpixel (convert_RGB cover_file) (x, y) of
               (r, g, b) \<Rightarrow>
                 (r, g, if y * width (convert_RGB cover_file) + x < 40 + width qr_img * height qr_img
                        then embed_bit b ((header_bits_of qr_img @ qr_bits_of qr_img)
                                            ! (y * width (convert_RGB cover_file) + x))
                        else b)))
    \<and> (\<forall>v. embed_bit v (CHR ''0'') = v AND NOT 1 \<and> embed_bit v (CHR ''1'') = v OR 1)
    \<and> (\<forall>v c n. 0 < n \<longrightarrow> bit (embed_bit v c) n = bit v n)"
  using assms by (rule embed_closed_form)

theorem embed_writes_only_blue_lsb_witness:
  "\<exists>stego_img.
     embed_qr_to_image (\<lambda>img. Image_new (width img) (height img))
       [''c.png'' \<mapsto> RGBFile \<lparr>width = 7, height = 6, pixels = replicate 42 (10, 20, 31)\<rparr>,
        ''q.png'' \<mapsto> BilevelFile \<lparr>width = 1, height = 1, pixels = [Black]\<rparr>]
       ''c.png'' ''q.png'' ''s.png'' False =
     (Inr (),
       [''c.png'' \<mapsto> RGBFile \<lparr>width = 7, height = 6, pixels = replicate 42 (10, 20, 31)\<rparr>,
        ''q.png'' \<mapsto> BilevelFile \<lparr>width = 1, height = 1, pixels = [Black]\<rparr>,
        ''s.png'' \<mapsto> RGBFile stego_img])
   \<and> getpixel stego_img (0, 0) = (10, 20, 30)
   \<and> getpixel stego_img (5, 5) = (10, 20, 31)
   \<and> getpixel stego_img (6, 5) = (10, 20, 31)"
proof -
  define files :: fs where "files =
       [''c.png'' \<mapsto> RGBFile \<lparr>width = 7, height = 6, pixels = replicate 42 (10, 20, 31)\<rparr>,
        ''q.png'' \<mapsto> BilevelFile \<lparr>width = 1, height = 1, pixels = [Black]\<rparr>]"
  define qr_img :: "px1 image" where "qr_img = \<lparr>width = 1, height = 1, pixels = [Black]\<rparr>"
  have c: "files ''c.png'' = Some (RGBFile \<lparr>width = 7, height = 6, pixels = replicate 42 (10, 20, 31)\<rparr>)"
    by (simp add: files_def)
  have q: "files ''q.png'' = Some (BilevelFile qr_img)"
    by (simp add: files_def qr_img_def)
  have wf: "wf_image (convert_RGB (RGBFile \<lparr>width = 7, height = 6, pixels = replicate 42 (10, 20, 31)\<rparr>))"
    by (simp add: wf_image_def)
  have fit: "fit_qr (convert_1 (\<lambda>img. Image_new (width img) (height img)) (BilevelFile qr_img))
                (width (convert_RGB (RGBFile \<lparr>width = 7, height = 6, pixels = replicate 42 (10, 20, 31)\<rparr>))
                  * height (convert_RGB (RGBFile \<lparr>width = 7, height = 6, pixels = replicate 42 (10, 20, 31)\<rparr>)))
                False = Inr qr_img"
    by (simp add: fit_qr_def HEADER_TERMINATOR_LEN_8 qr_img_def)
  have u: "width qr_img < 65536" "height qr_img < 65536" by (simp_all add: qr_img_def)
  have b0: "(header_bits_of qr_img @ qr_bits_of qr_img) ! 0 = CHR ''0''"
    unfolding qr_img_def by code_simp
  let ?C = "RGBFile \<lparr>width = 7, height = 6, pixels = replicate 42 (10, 20, 31)\<rparr>"
  from embed_writes_only_blue_lsb[OF c q ends_with_png_s wf fit u]
  obtain stego_img where
    H: "embed_qr_to_image (\<lambda>img. Image_new (width img) (height img)) files
            ''c.png'' ''q.png'' ''s.png'' False =
          (Inr (), if 40 + width qr_img * height qr_img
                      < width (convert_RGB ?C) * height (convert_RGB ?C)
                   then files(''s.png'' := Some (RGBFile stego_img)) else files)"
    and P: "\<forall>x y. x < width (convert_RGB ?C) \<and> y < height (convert_RGB ?C) \<longrightarrow>
          getpixel stego_img (x, y) =
            (case getpixel (convert_RGB ?C) (x, y) of
               (r, g, b) \<Rightarrow>
                 (r, g, if y * width (convert_RGB ?C) + x < 40 + width qr_img * height qr_img
                        then embed_bit b ((header_bits_of qr_img @ qr_bits_of qr_img)
                                            ! (y * width (convert_RGB ?C) + x))
                        else b))"
    by blast
  have run: "embed_qr_to_image (\<lambda>img. Image_new (width img) (height img)) files
            ''c.png'' ''q.png'' ''s.png'' False =
          (Inr (), files(''s.png'' := Some (RGBFile stego_img)))"
    using H by (simp add: qr_img_def)
  have px: "getpixel stego_img (x, y) =
            (case getpixel \<lparr>width = 7, height = 6, pixels = replicate 42 (10, 20, 31)\<rparr> (x, y) of
               (r, g, b) \<Rightarrow>
                 (r, g, if y * 7 + x < 41
                        then embed_bit b ((header_bits_of qr_img @ qr_bits_of qr_img) ! (y * 7 + x))
                        else b))" if "x < 7" "y < 6" for x y
  proof -
    have W: "width (convert_RGB ?C) = 7" and Hh: "height (convert_RGB ?C) = 6"
      and C: "convert_RGB ?C = \<lparr>width = 7, height = 6, pixels = replicate 42 (10, 20, 31)\<rparr>"
      and n: "40 + width qr_img * height qr_img = 41"
      by (simp_all add: qr_img_def)
    show ?thesis
      using P[unfolded W Hh n, rule_format, of x y] that unfolding C by simp
  qed
  have "getpixel stego_img (0, 0) = (10, 20, 30)"
    using px[of 0 0] b0 by (simp add: getpixel_def embed_bit_def)
  moreover have "getpixel stego_img (6, 5) = (10, 20, 31)"
    using px[of 6 5] by (simp add: getpixel_def)
  moreover have "getpixel stego_img (5, 5) = (10, 20, 31)"
  proof -
    have "(header_bits_of qr_img @ qr_bits_of qr_img) ! 40 = CHR ''1''"
      using length_header_bits_of[OF u]
      by (simp add: nth_append qr_bits_of_def qr_img_def row_major_def getpixel_def)
    then show ?thesis using px[of 5 5] by (simp add: getpixel_def embed_bit_def)
  qed
  ultimately show ?thesis
    using run unfolding files_def by (intro exI[of _ stego_img]) simp
qed

subsection \<open>Extraction undoes embedding\<close>

lemma px1_value_0: "(px1_value p = 0) = (p = Black)"
  by (cases p) simp_all

lemma qr_bits_of_linear:
  "qr_bits_of qr_img =
     map (\<lambda>i. if pixels qr_img ! i = Black then CHR ''1'' else CHR ''0'')
       [0..<width qr_img * height qr_img]"
  by (simp add: qr_bits_of_def row_major_linear getpixel_linear px1_value_0 comp_def)

lemma reconstruct_qr_bits:
  assumes "wf_image qr_img"
  shows "reconstruct_loop (row_major (width qr_img) (height qr_img)) (qr_bits_of qr_img) 0
           (Image_new (width qr_img) (height qr_img)) = qr_img"
proof -
  define n where "n = width qr_img * height qr_img"
  have len: "length (pixels qr_img) = n" using assms by (simp add: wf_image_def n_def)
  have "reconstruct_loop (map (\<lambda>i. (i mod width qr_img, i div width qr_img)) [0..<n])
          (qr_bits_of qr_img) 0 (Image_new (width qr_img) (height qr_img)) =
        (Image_new (width qr_img) (height qr_img))\<lparr>pixels :=
           map (\<lambda>i. if 0 \<le> i then (if qr_bits_of qr_img ! i = CHR ''1'' then Black else White)
                     else pixels (Image_new (width qr_img) (height qr_img)) ! i) [0..<n]\<rparr>"
    by (rule reconstruct_loop_linear) (simp_all add: Image_new_def n_def)
  moreover have "map (\<lambda>i. if 0 \<le> i then (if qr_bits_of qr_img ! i = CHR ''1'' then Black else White)
                     else pixels (Image_new (width qr_img) (height qr_img)) ! i) [0..<n] = pixels qr_img"
  proof (rule map_upt_nth_eq[OF len])
    fix i assume "i < n"
    then show "(if 0 \<le> i then (if qr_bits_of qr_img ! i = CHR ''1'' then Black else White)
                     else pixels (Image_new (width qr_img) (height qr_img)) ! i) = pixels qr_img ! i"
      by (cases "pixels qr_img ! i") (simp_all add: qr_bits_of_linear n_def)
  qed
  ultimately show ?thesis
    by (simp add: row_major_linear n_def Image_new_def)
qed

lemma header_bits_nth:
  assumes "width qr_img < 65536" "height qr_img < 65536"
  shows "map (\<lambda>i. (header_bits_of qr_img @ rest) ! i) [0..<16] = int_to_binary (width qr_img) 16"
    and "map (\<lambda>i. (header_bits_of qr_img @ rest) ! i) [16..<32] = int_to_binary (height qr_img) 16"
    and "\<forall>i. 32 \<le> i \<and> i < 40 \<longrightarrow> (header_bits_of qr_img @ rest) ! i = CHR ''0''"
proof -
  define hw where "hw = int_to_binary (width qr_img) 16"
  define hh where "hh = int_to_binary (height qr_img) 16"
  have lw: "length hw = 16" and lh: "length hh = 16"
    using assms length_int_to_binary[of 16] by (simp_all add: hw_def hh_def)
  have hb: "header_bits_of qr_img @ rest = hw @ hh @ replicate 8 (CHR ''0'') @ rest"
    by (simp add: header_bits_of_def hw_def hh_def HEADER_TERMINATOR_BIN_def numeral_eq_Suc)
  show "map (\<lambda>i. (header_bits_of qr_img @ rest) ! i) [0..<16] = hw"
    unfolding hb using lw by (intro nth_equalityI) (auto simp: nth_append)
  have "map (\<lambda>i. (hw @ hh @ replicate 8 (CHR ''0'') @ rest) ! i) [16..<32] = hh"
  proof (intro nth_equalityI)
    show "length (map (\<lambda>i. (hw @ hh @ replicate 8 (CHR ''0'') @ rest) ! i) [16..<32]) = length hh"
      using lh by simp
  next
    fix i assume "i < length (map (\<lambda>i. (hw @ hh @ replicate 8 (CHR ''0'') @ rest) ! i) [16..<32])"
    then have i: "i < 16" by simp
    then have "map (\<lambda>i. (hw @ hh @ replicate 8 (CHR ''0'') @ rest) ! i) [16..<32] ! i =
          (hw @ hh @ replicate 8 (CHR ''0'') @ rest) ! (16 + i)"
      by (intro nth_map_upt) simp
    also have "\<dots> = hh ! i" using lw lh i by (simp add: nth_append)
    finally show "map (\<lambda>i. (hw @ hh @ replicate 8 (CHR ''0'') @ rest) ! i) [16..<32] ! i = hh ! i" .
  qed
  then show "map (\<lambda>i. (header_bits_of qr_img @ rest) ! i) [16..<32] = hh"
    unfolding hb .
  show "\<forall>i. 32 \<le> i \<and> i < 40 \<longrightarrow> (header_bits_of qr_img @ rest) ! i = CHR ''0''"
    unfolding hb using lw lh by (auto simp: nth_append)
qed

lemma map_upt_cong:
  "(\<And>i. a \<le> i \<Longrightarrow> i < b \<Longrightarrow> f i = g i) \<Longrightarrow> map f [a..<b] = map g [a..<b]"
  by (rule map_cong) auto

lemma extract_image_of_embedded:
  fixes stego_img :: "rgb image" and qr_img :: "px1 image"
  defines "bits \<equiv> header_bits_of qr_img @ qr_bits_of qr_img"
  assumes wfs: "wf_image stego_img"
    and wfq: "wf_image qr_img"
    and u16: "width qr_img < 65536" "height qr_img < 65536"
    and cap: "40 + width qr_img * height qr_img \<le> width stego_img * height stego_img"
    and lsb: "\<And>i. i < 40 + width qr_img * height qr_img \<Longrightarrow>
                 extract_lsb (blue (pixels stego_img ! i)) = bits ! i"
  shows "extract_image stego_img = Inr qr_img"
proof -
  define W where "W = width stego_img"
  define H where "H = height stego_img"
  define w where "w = width qr_img"
  define h where "h = height qr_img"
  define f where "f = (\<lambda>i. extract_lsb (blue (pixels stego_img ! i)))"
  have n: "length (pixels stego_img) = W * H"
    using wfs by (simp add: wf_image_def W_def H_def)
  have cap': "40 + w * h \<le> W * H" using cap by (simp add: W_def H_def w_def h_def)
  have Wpos: "0 < W" using cap' by (cases W) auto
  have fb: "f i = bits ! i" if "i < 40 + w * h" for i
    using lsb[of i] that by (simp add: f_def w_def h_def)
  have m16: "map f [0..<16] = map (\<lambda>i. bits ! i) [0..<16]"
    by (rule map_upt_cong) (simp add: fb)
  have m32: "map f [16..<32] = map (\<lambda>i. bits ! i) [16..<32]"
    by (rule map_upt_cong) (simp add: fb)
  have tz: "\<forall>i. 32 \<le> i \<and> i < 40 \<longrightarrow> extract_lsb (blue (pixels stego_img ! i)) = CHR ''0''"
    using header_bits_nth(3)[OF u16, of "qr_bits_of qr_img"] fb
    by (auto simp: f_def bits_def)
  have hl: "header_loop (map (\<lambda>i. (i mod W, i div W)) [0..<W * H]) stego_img [] 0 =
      Inr (binary_to_int (map f [0..<16]), binary_to_int (map f [16..<32]), 40)"
    unfolding f_def
    by (rule header_loop_linear[OF _ n _ tz]) (use cap' in \<open>simp_all add: W_def\<close>)
  have hdr: "header_loop (row_major W H) stego_img [] 0 = Inr (w, h, 40)"
    unfolding row_major_linear hl m16 m32
    using header_bits_nth(1,2)[OF u16, of "qr_bits_of qr_img"]
    by (simp add: bits_def binary_to_int_int_to_binary w_def h_def)
  have it: "pixel_iterator W H 40 (w * h) = map (\<lambda>i. (i mod W, i div W)) [40..<40 + w * h]"
  proof -
    have "pixel_iterator W H 40 (w * h) = take (w * h) (map (\<lambda>i. (i mod W, i div W)) [40..<W * H])"
      by (rule pixel_iterator_linear[OF Wpos]) (use cap' in simp)
    also have "\<dots> = map (\<lambda>i. (i mod W, i div W)) (take (w * h) [40..<W * H])"
      by (simp add: take_map)
    also have "take (w * h) [40..<W * H] = [40..<40 + w * h]"
      using cap' by (simp add: take_upt)
    finally show ?thesis .
  qed
  have qb: "map (\<lambda>xy. extract_lsb (blue (getpixel stego_img xy))) (pixel_iterator W H 40 (w * h)) =
            qr_bits_of qr_img"
  proof -
    have "map (\<lambda>xy. extract_lsb (blue (getpixel stego_img xy))) (pixel_iterator W H 40 (w * h)) =
          map f [40..<40 + w * h]"
      unfolding it by (simp add: comp_def W_def f_def getpixel_linear)
    also have "\<dots> = map (\<lambda>i. bits ! i) [40..<40 + w * h]"
      by (rule map_upt_cong) (simp add: fb)
    also have "\<dots> = qr_bits_of qr_img"
    proof (intro nth_equalityI)
      show "length (map (\<lambda>i. bits ! i) [40..<40 + w * h]) = length (qr_bits_of qr_img)"
        by (simp add: length_qr_bits_of w_def h_def)
    next
      fix i assume "i < length (map (\<lambda>i. bits ! i) [40..<40 + w * h])"
      then have i: "i < w * h" by simp
      then have "map (\<lambda>i. bits ! i) [40..<40 + w * h] ! i = bits ! (40 + i)"
        by (intro nth_map_upt) simp
      also have "\<dots> = qr_bits_of qr_img ! i"
        using length_header_bits_of[OF u16] by (simp add: bits_def nth_append)
      finally show "map (\<lambda>i. bits ! i) [40..<40 + w * h] ! i = qr_bits_of qr_img ! i" .
    qed
    finally show ?thesis .
  qed
  have rec: "reconstruct_loop (row_major w h) (qr_bits_of qr_img) 0 (Image_new w h) = qr_img"
    unfolding w_def h_def by (rule reconstruct_qr_bits[OF wfq])
  have lenit: "length (pixel_iterator W H 40 (w * h)) = w * h"
    unfolding it by simp
  show ?thesis
    unfolding extract_image_def Let_def W_def[symmetric] H_def[symmetric]
    by (simp add: hdr qb rec lenit)
qed

lemma qr_bits_of_chars: "set (qr_bits_of qr_img) \<subseteq> {CHR ''0'', CHR ''1''}"
  by (auto simp: qr_bits_of_def)

lemma header_bits_of_chars: "set (header_bits_of qr_img) \<subseteq> {CHR ''0'', CHR ''1''}"
  using int_to_binary_chars[of "width qr_img" 16] int_to_binary_chars[of "height qr_img" 16]
  by (auto simp: header_bits_of_def HEADER_TERMINATOR_BIN_def)

lemma stream_bit_char:
  assumes "i < length (header_bits_of qr_img @ qr_bits_of qr_img)"
  shows "(header_bits_of qr_img @ qr_bits_of qr_img) ! i = CHR ''0''
       \<or> (header_bits_of qr_img @ qr_bits_of qr_img) ! i = CHR ''1''"
proof -
  have "(header_bits_of qr_img @ qr_bits_of qr_img) ! i
          \<in> set (header_bits_of qr_img @ qr_bits_of qr_img)"
    using assms by (rule nth_mem)
  then show ?thesis
    using qr_bits_of_chars[of qr_img] header_bits_of_chars[of qr_img] by auto
qed

lemma fit_qr_when_fits:
  "40 + width qr_img * height qr_img \<le> P \<Longrightarrow> fit_qr qr_img P resize = Inr qr_img"
  by (simp add: fit_qr_def HEADER_TERMINATOR_LEN_8 Let_def)

lemma round_trip_when_saved:
  assumes cover: "files cover_image_path = Some cover_file"
    and qr: "files qr_image_path = Some (BilevelFile qr_img)"
    and png: "ends_with_png output_stego_path"
    and wf: "wf_image (convert_RGB cover_file)"
    and wfq: "wf_image qr_img"
    and pos: "0 < width qr_img" "0 < height qr_img"
    and u16: "width qr_img < 65536" "height qr_img < 65536"
    and strict: "40 + width qr_img * height qr_img
                   < width (convert_RGB cover_file) * height (convert_RGB cover_file)"
  shows "\<exists>stego_img.
      embed_qr_to_image dither files cover_image_path qr_image_path output_stego_path resize =
        (Inr (), files(output_stego_path := Some (RGBFile stego_img)))
    \<and> extract_qr_from_image (files(output_stego_path := Some (RGBFile stego_img)))
          output_stego_path output_qr_path =
        (Inr (), (files(output_stego_path := Some (RGBFile stego_img)))
                   ((if \<not> ends_with_png output_qr_path
                     then splitext_root output_qr_path @ ''.png'' else output_qr_path)
                    := Some (BilevelFile qr_img)))"
proof -
  define cover_img where "cover_img = convert_RGB cover_file"
  define W where "W = width cover_img"
  define H where "H = height cover_img"
  define bits where "bits = header_bits_of qr_img @ qr_bits_of qr_img"
  have fit: "fit_qr (convert_1 dither (BilevelFile qr_img))
               (width (convert_RGB cover_file) * height (convert_RGB cover_file)) resize = Inr qr_img"
    using strict by (simp add: fit_qr_when_fits)
  from embed_closed_form[OF cover qr png wf fit u16]
  obtain stego_img where
    run: "embed_qr_to_image dither files cover_image_path qr_image_path output_stego_path resize =
          (Inr (), if 40 + width qr_img * height qr_img < W * H
                   then files(output_stego_path := Some (RGBFile stego_img)) else files)"
    and len: "length bits = 40 + width qr_img * height qr_img"
    and ws: "width stego_img = W" and hs: "height stego_img = H" and wfs: "wf_image stego_img"
    and px: "\<forall>x y. x < W \<and> y < H \<longrightarrow>
          getpixel stego_img (x, y) =
            (case getpixel cover_img (x, y) of
               (r, g, b) \<Rightarrow>
                 (r, g, if y * W + x < 40 + width qr_img * height qr_img
                        then embed_bit b (bits ! (y * W + x)) else b))"
    unfolding W_def H_def cover_img_def bits_def by blast
  have Wpos: "0 < W" using strict by (cases W) (auto simp: W_def cover_img_def)
  have lsb: "extract_lsb (blue (pixels stego_img ! i)) = bits ! i"
    if i: "i < 40 + width qr_img * height qr_img" for i
  proof -
    have iWH: "i < W * H" using i strict by (simp add: W_def H_def cover_img_def)
    have x: "i mod W < W" using Wpos by simp
    have y: "i div W < H" using iWH by (simp add: less_mult_imp_div_less mult.commute)
    have idx: "i div W * W + i mod W = i" by simp
    have "pixels stego_img ! i = getpixel stego_img (i mod W, i div W)"
      using getpixel_linear[of stego_img i] ws by simp
    also have "\<dots> = (case getpixel cover_img (i mod W, i div W) of
               (r, g, b) \<Rightarrow> (r, g, embed_bit b (bits ! i)))"
      using px[rule_format, of "i mod W" "i div W"] x y i by (simp only: idx) simp
    finally have "blue (pixels stego_img ! i) =
        embed_bit (blue (getpixel cover_img (i mod W, i div W))) (bits ! i)"
      by (simp add: blue_def split: prod.splits)
    moreover have "bits ! i = CHR ''0'' \<or> bits ! i = CHR ''1''"
      unfolding bits_def by (rule stream_bit_char) (use i len in \<open>simp add: bits_def\<close>)
    ultimately show ?thesis by (simp add: extract_embed)
  qed
  have ex: "extract_image stego_img = Inr qr_img"
    by (rule extract_image_of_embedded[OF wfs wfq u16])
       (use strict lsb ws hs in \<open>simp_all add: W_def H_def cover_img_def bits_def\<close>)
  have "embed_qr_to_image dither files cover_image_path qr_image_path output_stego_path resize =
        (Inr (), files(output_stego_path := Some (RGBFile stego_img)))"
    using run strict by (simp add: W_def H_def cover_img_def)
  moreover have "extract_qr_from_image (files(output_stego_path := Some (RGBFile stego_img)))
          output_stego_path output_qr_path =
        (Inr (), (files(output_stego_path := Some (RGBFile stego_img)))
                   ((if \<not> ends_with_png output_qr_path
                     then splitext_root output_qr_path @ ''.png'' else output_qr_path)
                    := Some (BilevelFile qr_img)))"
    using pos by (simp add: extract_qr_from_image_def ex Let_def)
  ultimately show ?thesis by blast
qed

lemma exact_fit_is_not_saved:
  assumes cover: "files cover_image_path = Some cover_file"
    and qr: "files qr_image_path = Some (BilevelFile qr_img)"
    and png: "ends_with_png output_stego_path"
    and wf: "wf_image (convert_RGB cover_file)"
    and u16: "width qr_img < 65536" "height qr_img < 65536"
    and exact: "40 + width qr_img * height qr_img
                   = width (convert_RGB cover_file) * height (convert_RGB cover_file)"
  shows "embed_qr_to_image dither files cover_image_path qr_image_path output_stego_path resize =
           (Inr (), files)"
proof -
  have fit: "fit_qr (convert_1 dither (BilevelFile qr_img))
               (width (convert_RGB cover_file) * height (convert_RGB cover_file)) resize = Inr qr_img"
    using exact by (simp add: fit_qr_when_fits)
  from embed_closed_form[OF cover qr png wf fit u16] exact
  show ?thesis by auto
qed

subsection \<open>The round trip at exact capacity\<close>

text \<open>
  Claim C1 says that extraction returns the payload whenever \<open>w * h + 40 \<le> P\<close>. Lemma
  \<open>round_trip_when_saved\<close> above proves it for \<open>w * h + 40 < P\<close>. At
  \<open>w * h + 40 = P\<close> the embedding loop uses the last pixel for the last bit and ends
  without reaching the \<open>StopIteration\<close> handler that saves the image: the call returns
  normally, no stego file exists, and extraction finds no file. The theorem runs the
  two calls on a cover of \<open>41 \<times> 1\<close> pixels and a payload of one pixel.
\<close>

lemma ends_with_png_examples: "ends_with_png ''s.png''" "ends_with_png ''out.png''"
  by (simp_all add: ends_with_png_def lower_char_def suffix_def)

theorem exact_fit_cover_is_never_written:
  "embed_qr_to_image (\<lambda>img. Image_new (width img) (height img))
     [''c.png'' \<mapsto> RGBFile \<lparr>width = 41, height = 1, pixels = replicate 41 (10, 20, 31)\<rparr>,
      ''q.png'' \<mapsto> BilevelFile \<lparr>width = 1, height = 1, pixels = [Black]\<rparr>]
     ''c.png'' ''q.png'' ''s.png'' True =
   (Inr (),
     [''c.png'' \<mapsto> RGBFile \<lparr>width = 41, height = 1, pixels = replicate 41 (10, 20, 31)\<rparr>,
      ''q.png'' \<mapsto> BilevelFile \<lparr>width = 1, height = 1, pixels = [Black]\<rparr>])
 \<and> extract_qr_from_image
     [''c.png'' \<mapsto> RGBFile \<lparr>width = 41, height = 1, pixels = replicate 41 (10, 20, 31)\<rparr>,
      ''q.png'' \<mapsto> BilevelFile \<lparr>width = 1, height = 1, pixels = [Black]\<rparr>]
     ''s.png'' ''out.png'' =
   (Inl (FileNotFoundError ''s.png''),
     [''c.png'' \<mapsto> RGBFile \<lparr>width = 41, height = 1, pixels = replicate 41 (10, 20, 31)\<rparr>,
      ''q.png'' \<mapsto> BilevelFile \<lparr>width = 1, height = 1, pixels = [Black]\<rparr>])"
proof -
  define files :: fs where "files =
     [''c.png'' \<mapsto> RGBFile \<lparr>width = 41, height = 1, pixels = replicate 41 (10, 20, 31)\<rparr>,
      ''q.png'' \<mapsto> BilevelFile \<lparr>width = 1, height = 1, pixels = [Black]\<rparr>]"
  have c: "files ''c.png'' = Some (RGBFile \<lparr>width = 41, height = 1, pixels = replicate 41 (10, 20, 31)\<rparr>)"
    and q: "files ''q.png'' = Some (BilevelFile \<lparr>width = 1, height = 1, pixels = [Black]\<rparr>)"
    and s: "files ''s.png'' = None"
    by (simp_all add: files_def)
  have "embed_qr_to_image (\<lambda>img. Image_new (width img) (height img)) files
          ''c.png'' ''q.png'' ''s.png'' True = (Inr (), files)"
    by (rule exact_fit_is_not_saved[OF c q ends_with_png_examples(1)]) (simp_all add: wf_image_def)
  moreover have "extract_qr_from_image files ''s.png'' ''out.png'' =
                   (Inl (FileNotFoundError ''s.png''), files)"
    using s by (simp add: extract_qr_from_image_def)
  ultimately show ?thesis unfolding files_def by simp
qed

section \<open>Properties of the document binding\<close>

subsection \<open>The envelope parser\<close>

lemmas ref_json_dumps_eval =
  quote_def escape_char_def show_int_def dec_digits.simps item_separator_def key_separator_def
  Let_def char_of_def bit_Suc_0_iff

lemmas ref_json_loads_eval =
  ref_json_loads_def is_ws_def parse_number_def is_digit_def digits_value_def Let_def
  hex_value_def char_of_def bit_Suc_0_iff


lemma reference_libs_sel:
  "json_dumps reference_libs = ref_json_dumps"
  "json_loads reference_libs = ref_json_loads"
  "b64encode reference_libs = ref_b64encode"
  "b64decode reference_libs = ref_b64decode"
  "hmac_sha256 reference_libs = example_mac"
  "sha256_hexdigest reference_libs = example_digest"
  by (simp_all add: reference_libs_def)






subsection \<open>The compact envelope\<close>

text \<open>
  Claim C10. When \<open>json.loads\<close> reads the compact envelope back as the dictionary that
  was written, the parser answers that it is not secure and hands back the whole
  compact text, and \<open>quick_binding_verification\<close> answers legacy without looking at
  the document or the token. \<open>generate_bound_qr\<close> emits that envelope when the full one
  does not fit and the compact one does.
\<close>

theorem compact_envelope_is_not_secure:
  assumes "json_loads L (compact_secure_data L payload_text token) =
             Some (JObj [(''v'', JStr ''1.0''), (''t'', JStr ''s''), (''d'', JStr payload_text),
                         (''b'', JStr (take 100 token))])"
  shows "parse_secure_qr_data L (compact_secure_data L payload_text token) =
           Inr \<lparr>is_secure = False,
                original_data = JStr (compact_secure_data L payload_text token),
                binding_token = JNull, version = JNull, created_at = JNull,
                is_uuid_based = False\<rparr>
       \<and> quick_binding_verification L secret_key docs (compact_secure_data L payload_text token)
           document_path uuid4 time_1 time_2 = LegacyFormat
       \<and> (\<not> capacity_ok (create_secure_qr_data L payload_text token time_now)
            \<and> capacity_ok (compact_secure_data L payload_text token) \<longrightarrow>
          choose_secure_qr_data L capacity_ok payload_text token time_now =
            Inr (compact_secure_data L payload_text token))"
proof -
  have p: "parse_secure_qr_data L (compact_secure_data L payload_text token) =
           Inr \<lparr>is_secure = False,
                original_data = JStr (compact_secure_data L payload_text token),
                binding_token = JNull, version = JNull, created_at = JNull,
                is_uuid_based = False\<rparr>"
    using assms by (simp add: parse_secure_qr_data_def dict_get_def)
  show ?thesis
    by (simp add: p quick_binding_verification_def choose_secure_qr_data_def Let_def)
qed

lemma compact_example:
  "compact_secure_data reference_libs ''hello'' ''dG9rZW4='' =
     ''{\"v\":\"1.0\",\"t\":\"s\",\"d\":\"hello\",\"b\":\"dG9rZW4=\"}''"
  by (simp add: compact_secure_data_def reference_libs_sel ref_json_dumps_eval)

lemma loads_compact_example:
  "ref_json_loads ''{\"v\":\"1.0\",\"t\":\"s\",\"d\":\"hello\",\"b\":\"dG9rZW4=\"}'' =
     Some (JObj [(''v'', JStr ''1.0''), (''t'', JStr ''s''), (''d'', JStr ''hello''),
                 (''b'', JStr ''dG9rZW4='')])"
  by (simp add: ref_json_loads_eval)

theorem compact_envelope_is_not_secure_witness:
  "parse_secure_qr_data reference_libs ''{\"v\":\"1.0\",\"t\":\"s\",\"d\":\"hello\",\"b\":\"dG9rZW4=\"}'' =
     Inr \<lparr>is_secure = False,
          original_data = JStr ''{\"v\":\"1.0\",\"t\":\"s\",\"d\":\"hello\",\"b\":\"dG9rZW4=\"}'',
          binding_token = JNull, version = JNull, created_at = JNull, is_uuid_based = False\<rparr>
   \<and> quick_binding_verification reference_libs ''key'' Map.empty
       ''{\"v\":\"1.0\",\"t\":\"s\",\"d\":\"hello\",\"b\":\"dG9rZW4=\"}'' ''a.pdf'' ''u'' 0 0 = LegacyFormat
   \<and> choose_secure_qr_data reference_libs (\<lambda>s. length s \<le> 50) ''hello'' ''dG9rZW4='' 7 =
       Inr ''{\"v\":\"1.0\",\"t\":\"s\",\"d\":\"hello\",\"b\":\"dG9rZW4=\"}''"
proof -
  have len: "\<not> length (create_secure_qr_data reference_libs ''hello'' ''dG9rZW4='' 7) \<le> 50"
    by (simp add: create_secure_qr_data_def reference_libs_sel ref_json_dumps_eval
          QR_BINDING_VERSION_def)
  show ?thesis
    using compact_envelope_is_not_secure[of reference_libs "''hello''" "''dG9rZW4=''"
            "''key''" Map.empty "''a.pdf''" "''u''" 0 0 "\<lambda>s. length s \<le> 50" 7] len
    by (simp add: compact_example loads_compact_example reference_libs_sel)
qed

subsection \<open>Verification answers every token\<close>












end
